theory Spec2Isabelle
  imports Complex_Main "HOL-Library.Word"
begin

unbundle bit_operations_syntax

section \<open>Numbers and typed arrays\<close>

text \<open>
  Numbers of the program that can be fractional (intensity, resolution, diffused error,
  durations, crop coordinates) are modelled as exact reals: the rounding of IEEE doubles
  and of the \<open>Float32Array\<close> error buffers is idealised away. Channel values, palette
  entries and cache keys are integers.

  A framebuffer is the \<open>Uint8ClampedArray\<close> of the source: a list of integers, one per
  byte, four per pixel. Storing a number into such an array clamps it to \<open>[0,255]\<close> and
  rounds it to the nearest integer, ties to even; storing out of range is ignored
  (as \<open>list_update\<close> does). The model covers framebuffers of \<open>4 * width * height\<close>
  bytes, the ones the canvas hands out, so that every read of the source is in range.
\<close>

definition roundHalfEven :: "real \<Rightarrow> int" where
  "roundHalfEven v =
     (let f = \<lfloor>v\<rfloor> in
      if v - of_int f < 1 / 2 then f
      else if 1 / 2 < v - of_int f then f + 1
      else if even f then f else f + 1)"

definition toUint8Clamped :: "real \<Rightarrow> int" where
  "toUint8Clamped v = (if v \<le> 0 then 0 else if 255 \<le> v then 255 else roundHalfEven v)"

text \<open>\<open>Math.max(0, Math.min(255, v))\<close>.\<close>

definition clamp255 :: "real \<Rightarrow> real" where
  "clamp255 v = max 0 (min 255 v)"

text \<open>\<open>v | 0\<close> on a number within the 32-bit range: truncation towards zero.\<close>

definition truncate0 :: "real \<Rightarrow> int" where
  "truncate0 v = (if 0 \<le> v then \<lfloor>v\<rfloor> else \<lceil>v\<rceil>)"

text \<open>\<open>Math.round\<close>: the nearest integer, halves towards plus infinity.\<close>

definition mathRound :: "real \<Rightarrow> int" where
  "mathRound v = \<lfloor>v + 1 / 2\<rfloor>"

section \<open>The nearest-colour quantizer and its cache\<close>

type_synonym rgb = "int \<times> int \<times> int"

text \<open>
  \<open>colorCache\<close> is a JavaScript \<open>Map\<close>: its entries in insertion order, oldest first.
  A stored value is \<open>None\<close> when the source stored \<open>undefined\<close> (the scan of an empty
  palette).
\<close>

type_synonym cache = "(int \<times> rgb option) list"

definition MAX_CACHE_SIZE :: nat where
  "MAX_CACHE_SIZE = 8192"

definition colorKey :: "int \<Rightarrow> int \<Rightarrow> int \<Rightarrow> int" where
  "colorKey r g b = (push_bit 16 r OR push_bit 8 g OR b)"

definition sqDist :: "int \<Rightarrow> int \<Rightarrow> int \<Rightarrow> rgb \<Rightarrow> int" where
  "sqDist r g b p =
     (case p of (pr, pg, pb) \<Rightarrow>
        let dr = r - pr; dg = g - pg; db = b - pb in dr * dr + dg * dg + db * db)"

text \<open>
  The scan of the palette; \<open>minDist = None\<close> is the initial \<open>Infinity\<close>, below which
  every distance lies.
\<close>

fun scanPalette :: "int \<Rightarrow> int \<Rightarrow> int \<Rightarrow> rgb list \<Rightarrow> int option \<times> rgb option
    \<Rightarrow> int option \<times> rgb option" where
  "scanPalette r g b [] acc = acc"
| "scanPalette r g b (p # rest) (minDist, nearest) =
     (let dist = sqDist r g b p in
      if (case minDist of None \<Rightarrow> True | Some m \<Rightarrow> dist < m)
      then scanPalette r g b rest (Some dist, Some p)
      else scanPalette r g b rest (minDist, nearest))"

definition paletteHead :: "rgb list \<Rightarrow> rgb option" where
  "paletteHead palette = (case palette of [] \<Rightarrow> None | p # _ \<Rightarrow> Some p)"

text \<open>Lines 570 to 584: the nearest entry by a full scan, \<open>undefined\<close> for no palette.\<close>

definition nearestByScan :: "int \<Rightarrow> int \<Rightarrow> int \<Rightarrow> rgb list \<Rightarrow> rgb option" where
  "nearestByScan r g b palette = snd (scanPalette r g b palette (None, paletteHead palette))"

definition evictOldest :: "cache \<Rightarrow> cache" where
  "evictOldest colorCache =
     (if MAX_CACHE_SIZE \<le> length colorCache
      then (case colorCache of [] \<Rightarrow> [] | _ # rest \<Rightarrow> rest)
      else colorCache)"

definition findNearestColor :: "cache \<Rightarrow> int \<Rightarrow> int \<Rightarrow> int \<Rightarrow> rgb list
    \<Rightarrow> rgb option \<times> cache" where
  "findNearestColor colorCache r g b palette =
     (let key = colorKey r g b in
      case map_of colorCache key of
        Some cached \<Rightarrow> (cached, colorCache)
      | None \<Rightarrow>
          (let nearest = nearestByScan r g b palette
           in (nearest, evictOldest colorCache @ [(key, nearest)])))"

section \<open>Dithering\<close>

text \<open>
  The dithering functions mutate the framebuffer in place and use the global colour
  cache; the model passes both in and returns both. A result \<open>None\<close> is the
  \<open>TypeError\<close> the source raises when it destructures the \<open>undefined\<close> that
  \<open>findNearestColor\<close> returns for an empty palette.
\<close>

datatype DitheringKind = Bayer | FloydSteinberg | JJN | Stucki | Sierra

text \<open>A store into the \<open>Uint8ClampedArray\<close>.\<close>

definition store :: "int list \<Rightarrow> nat \<Rightarrow> real \<Rightarrow> int list" where
  "store buf i v = buf[i := toUint8Clamped v]"

text \<open>\<open>for (let i = 0; i < n; i++)\<close> over the indices given, stopping at an exception.\<close>

fun forEach :: "nat list \<Rightarrow> (nat \<Rightarrow> 's \<Rightarrow> 's option) \<Rightarrow> 's \<Rightarrow> 's option" where
  "forEach [] body s = Some s"
| "forEach (i # rest) body s =
     (case body i s of None \<Rightarrow> None | Some s' \<Rightarrow> forEach rest body s')"

subsection \<open>Ordered (Bayer) dithering\<close>

definition bayerMatrix8x8 :: "int list list" where
  "bayerMatrix8x8 =
     [[0, 32, 8, 40, 2, 34, 10, 42],
      [48, 16, 56, 24, 50, 18, 58, 26],
      [12, 44, 4, 36, 14, 46, 6, 38],
      [60, 28, 52, 20, 62, 30, 54, 22],
      [3, 35, 11, 43, 1, 33, 9, 41],
      [51, 19, 59, 27, 49, 17, 57, 25],
      [15, 47, 7, 39, 13, 45, 5, 37],
      [63, 31, 55, 23, 61, 29, 53, 21]]"

text \<open>
  One iteration of the pixel loop, for \<open>i = pixelIndex * 4\<close>. With \<open>width = 0\<close> the
  source computes \<open>NaN & 7 = 0\<close> for both matrix coordinates.
\<close>

definition bayerPixel :: "nat \<Rightarrow> rgb list \<Rightarrow> real \<Rightarrow> nat \<Rightarrow> int list \<times> cache
    \<Rightarrow> (int list \<times> cache) option" where
  "bayerPixel width palette ditherScale pixelIndex s =
     (case s of (data, colorCache) \<Rightarrow>
      let i = pixelIndex * 4;
          mx = (if width = 0 then 0 else (pixelIndex mod width) AND 7);
          my = (if width = 0 then 0 else (pixelIndex div width) AND 7);
          dither = of_int (bayerMatrix8x8 ! my ! mx - 32) * ditherScale;
          data1 = store data i (of_int (truncate0 (clamp255 (of_int (data ! i) + dither))));
          data2 = store data1 (i + 1)
                    (of_int (truncate0 (clamp255 (of_int (data1 ! (i + 1)) + dither))));
          data3 = store data2 (i + 2)
                    (of_int (truncate0 (clamp255 (of_int (data2 ! (i + 2)) + dither))))
      in case findNearestColor colorCache (data3 ! i) (data3 ! (i + 1)) (data3 ! (i + 2)) palette of
           (None, colorCache') \<Rightarrow> None
         | (Some (pr, pg, pb), colorCache') \<Rightarrow>
             Some (store (store (store data3 i (of_int pr)) (i + 1) (of_int pg)) (i + 2) (of_int pb),
                   colorCache'))"

text \<open>The body of \<open>applyBayerDithering\<close> below its resolution check.\<close>

definition bayerDirect :: "cache \<Rightarrow> int list \<Rightarrow> nat \<Rightarrow> nat \<Rightarrow> rgb list \<Rightarrow> real
    \<Rightarrow> (int list \<times> cache) option" where
  "bayerDirect colorCache data width height palette intensity =
     (let ditherScale = 255 * intensity / 64
      in forEach [0..<(length data + 3) div 4] (bayerPixel width palette ditherScale)
           (data, colorCache))"

subsection \<open>Error diffusion\<close>

record DiffusionState =
  st_data :: "int list"
  st_errorBuffer :: "real list"
  st_currentRow :: nat
  st_cache :: cache

text \<open>\<open>errorBuffer[i] += v\<close>\<close>

definition addAt :: "real list \<Rightarrow> nat \<Rightarrow> real \<Rightarrow> real list" where
  "addAt buf i v = buf[i := buf ! i + v]"

text \<open>
  The three statements \<open>errorBuffer[i] += errR * w; errorBuffer[i + 1] += errG * w;
  errorBuffer[i + 2] += errB * w\<close>.
\<close>

definition addRGB :: "real list \<Rightarrow> nat \<Rightarrow> real \<times> real \<times> real \<Rightarrow> real \<Rightarrow> real list" where
  "addRGB buf i err w =
     (case err of (errR, errG, errB) \<Rightarrow>
        addAt (addAt (addAt buf i (errR * w)) (i + 1) (errG * w)) (i + 2) (errB * w))"

text \<open>\<open>for (let i = lo; i < hi; i++) errorBuffer[i] = 0\<close>\<close>

definition clearRange :: "real list \<Rightarrow> nat \<Rightarrow> nat \<Rightarrow> real list" where
  "clearRange buf lo hi = fold (\<lambda>i b. b[i := 0]) [lo..<hi] buf"

text \<open>
  Reading the pixel with its accumulated error, quantizing it and writing the palette
  colour back is the same in the four algorithms; \<open>errIdx\<close> is where the pixel's error
  sits. The result carries the residual \<open>(r - pr, g - pg, b - pb)\<close>.
\<close>

definition quantizePixel :: "rgb list \<Rightarrow> real \<Rightarrow> nat \<Rightarrow> nat \<Rightarrow> DiffusionState
    \<Rightarrow> (DiffusionState \<times> real \<times> real \<times> real) option" where
  "quantizePixel palette intensity idx errIdx s =
     (let r = clamp255 (of_int (st_data s ! idx) + st_errorBuffer s ! errIdx * intensity);
          g = clamp255 (of_int (st_data s ! (idx + 1)) + st_errorBuffer s ! (errIdx + 1) * intensity);
          b = clamp255 (of_int (st_data s ! (idx + 2)) + st_errorBuffer s ! (errIdx + 2) * intensity)
      in case findNearestColor (st_cache s) (truncate0 r) (truncate0 g) (truncate0 b) palette of
           (None, colorCache') \<Rightarrow> None
         | (Some (pr, pg, pb), colorCache') \<Rightarrow>
             Some (s \<lparr> st_data :=
                         store (store (store (st_data s) idx (of_int pr)) (idx + 1) (of_int pg))
                           (idx + 2) (of_int pb),
                       st_cache := colorCache' \<rparr>,
                   (r - of_int pr, g - of_int pg, b - of_int pb)))"

subsubsection \<open>Floyd-Steinberg\<close>

definition fsDiffuse :: "nat \<Rightarrow> nat \<Rightarrow> nat \<Rightarrow> nat \<Rightarrow> nat \<Rightarrow> nat \<Rightarrow> real \<times> real \<times> real
    \<Rightarrow> real list \<Rightarrow> real list" where
  "fsDiffuse width height nextRow y x errIdx residual errorBuffer =
     (case residual of (resR, resG, resB) \<Rightarrow>
      let err = (resR / 16, resG / 16, resB / 16);
          nextBufStart_row = nextRow * (width + 2) * 3;
          buf1 = (if int x < int width - 1 then addRGB errorBuffer (errIdx + 3) err 7
                  else errorBuffer);
          buf2 = (if int y < int height - 1 then addRGB buf1 (nextBufStart_row + x * 3) err 3
                  else buf1);
          buf3 = (if int y < int height - 1
                  then addRGB buf2 (nextBufStart_row + (x + 1) * 3) err 5 else buf2)
      in if int y < int height - 1 \<and> int x < int width - 1
         then addRGB buf3 (nextBufStart_row + (x + 2) * 3) err 1 else buf3)"

definition fsPixel :: "nat \<Rightarrow> nat \<Rightarrow> rgb list \<Rightarrow> real \<Rightarrow> nat \<Rightarrow> nat \<Rightarrow> nat \<Rightarrow> nat
    \<Rightarrow> DiffusionState \<Rightarrow> DiffusionState option" where
  "fsPixel width height palette intensity y currentBufStart nextRow x s =
     (let idx = (y * width + x) * 4;
          errIdx = currentBufStart + (x + 1) * 3
      in case quantizePixel palette intensity idx errIdx s of
           None \<Rightarrow> None
         | Some (s', residual) \<Rightarrow>
             Some (s' \<lparr> st_errorBuffer :=
                          fsDiffuse width height nextRow y x errIdx residual (st_errorBuffer s') \<rparr>))"

definition fsRow :: "nat \<Rightarrow> nat \<Rightarrow> rgb list \<Rightarrow> real \<Rightarrow> nat \<Rightarrow> DiffusionState
    \<Rightarrow> DiffusionState option" where
  "fsRow width height palette intensity y s =
     (let nextRow = 1 - st_currentRow s;
          nextBufStart = nextRow * (width + 2) * 3;
          s1 = s \<lparr> st_errorBuffer :=
                     fold (\<lambda>i buf. buf[nextBufStart + i := 0]) [0..<(width + 2) * 3]
                       (st_errorBuffer s) \<rparr>;
          currentBufStart = st_currentRow s * (width + 2) * 3
      in case forEach [0..<width] (fsPixel width height palette intensity y currentBufStart nextRow) s1 of
           None \<Rightarrow> None
         | Some s2 \<Rightarrow> Some (s2 \<lparr> st_currentRow := nextRow \<rparr>))"

definition floydSteinbergDirect :: "cache \<Rightarrow> int list \<Rightarrow> nat \<Rightarrow> nat \<Rightarrow> rgb list \<Rightarrow> real
    \<Rightarrow> (int list \<times> cache) option" where
  "floydSteinbergDirect colorCache data width height palette intensity =
     (case forEach [0..<height] (fsRow width height palette intensity)
             \<lparr> st_data = data, st_errorBuffer = replicate ((width + 2) * 3 * 2) 0,
               st_currentRow = 0, st_cache = colorCache \<rparr> of
        None \<Rightarrow> None
      | Some s \<Rightarrow> Some (st_data s, st_cache s))"

subsubsection \<open>Jarvis-Judice-Ninke\<close>

definition jjnDiffuse :: "nat \<Rightarrow> nat \<Rightarrow> nat \<Rightarrow> nat \<Rightarrow> nat \<Rightarrow> nat \<Rightarrow> nat \<Rightarrow> real \<times> real \<times> real
    \<Rightarrow> real list \<Rightarrow> real list" where
  "jjnDiffuse width height nextBufStart nextNextBufStart y x errIdx residual errorBuffer =
     (case residual of (resR, resG, resB) \<Rightarrow>
      let err = (resR / 48, resG / 48, resB / 48);
          buf1 = (if int x < int width - 1 then addRGB errorBuffer (errIdx + 3) err 7
                  else errorBuffer);
          buf2 = (if int x < int width - 2 then addRGB buf1 (errIdx + 6) err 5 else buf1);
          buf3 = (if int y < int height - 1 then
                    (let n1 = (if 0 < x then addRGB buf2 (nextBufStart + (x + 2) * 3) err 3
                               else buf2);
                         n2 = addRGB n1 (nextBufStart + (x + 3) * 3) err 5;
                         n3 = (if int x < int width - 1
                               then addRGB n2 (nextBufStart + (x + 4) * 3) err 7 else n2);
                         n4 = (if int x < int width - 2
                               then addRGB n3 (nextBufStart + (x + 5) * 3) err 5 else n3)
                     in if 0 < x then addRGB n4 (nextBufStart + (x + 1) * 3) err 3 else n4)
                  else buf2)
      in if int y < int height - 2 then
           (let m1 = (if 0 < x then addRGB buf3 (nextNextBufStart + (x + 2) * 3) err 1
                      else buf3);
                m2 = addRGB m1 (nextNextBufStart + (x + 3) * 3) err 3;
                m3 = (if int x < int width - 1
                      then addRGB m2 (nextNextBufStart + (x + 4) * 3) err 5 else m2);
                m4 = (if int x < int width - 2
                      then addRGB m3 (nextNextBufStart + (x + 5) * 3) err 3 else m3)
            in if 0 < x then addRGB m4 (nextNextBufStart + (x + 1) * 3) err 1 else m4)
         else buf3)"

definition jjnPixel :: "nat \<Rightarrow> nat \<Rightarrow> rgb list \<Rightarrow> real \<Rightarrow> nat \<Rightarrow> nat \<Rightarrow> nat \<Rightarrow> nat \<Rightarrow> nat
    \<Rightarrow> DiffusionState \<Rightarrow> DiffusionState option" where
  "jjnPixel width height palette intensity y currentBufStart nextBufStart nextNextBufStart x s =
     (let idx = (y * width + x) * 4;
          errIdx = currentBufStart + (x + 3) * 3
      in case quantizePixel palette intensity idx errIdx s of
           None \<Rightarrow> None
         | Some (s', residual) \<Rightarrow>
             Some (s' \<lparr> st_errorBuffer :=
                          jjnDiffuse width height nextBufStart nextNextBufStart y x errIdx residual
                            (st_errorBuffer s') \<rparr>))"

definition jjnRow :: "nat \<Rightarrow> nat \<Rightarrow> rgb list \<Rightarrow> real \<Rightarrow> nat \<Rightarrow> DiffusionState
    \<Rightarrow> DiffusionState option" where
  "jjnRow width height palette intensity y s =
     (let nextRow = (st_currentRow s + 1) mod 3;
          nextNextRow = (st_currentRow s + 2) mod 3;
          cleared1 = clearRange (st_errorBuffer s) (nextRow * (width + 6) * 3)
                       ((nextRow + 1) * (width + 6) * 3);
          cleared2 = clearRange cleared1 (nextNextRow * (width + 6) * 3)
                       ((nextNextRow + 1) * (width + 6) * 3);
          s1 = s \<lparr> st_errorBuffer := cleared2 \<rparr>;
          currentBufStart = st_currentRow s * (width + 6) * 3;
          nextBufStart = nextRow * (width + 6) * 3;
          nextNextBufStart = nextNextRow * (width + 6) * 3
      in case forEach [0..<width]
                (jjnPixel width height palette intensity y currentBufStart nextBufStart
                   nextNextBufStart) s1 of
           None \<Rightarrow> None
         | Some s2 \<Rightarrow> Some (s2 \<lparr> st_currentRow := nextRow \<rparr>))"

definition jjnDirect :: "cache \<Rightarrow> int list \<Rightarrow> nat \<Rightarrow> nat \<Rightarrow> rgb list \<Rightarrow> real
    \<Rightarrow> (int list \<times> cache) option" where
  "jjnDirect colorCache data width height palette intensity =
     (case forEach [0..<height] (jjnRow width height palette intensity)
             \<lparr> st_data = data, st_errorBuffer = replicate ((width + 6) * 3 * 3) 0,
               st_currentRow = 0, st_cache = colorCache \<rparr> of
        None \<Rightarrow> None
      | Some s \<Rightarrow> Some (st_data s, st_cache s))"

subsubsection \<open>Stucki and Sierra\<close>

text \<open>
  The two share the shape of their kernel: two targets in the current row, five in the
  next one. \<open>stuckiDiffuse\<close> and \<open>sierraDiffuse\<close> are written out from the two source
  functions.
\<close>

definition stuckiDiffuse :: "nat \<Rightarrow> nat \<Rightarrow> nat \<Rightarrow> nat \<Rightarrow> nat \<Rightarrow> nat \<Rightarrow> real \<times> real \<times> real
    \<Rightarrow> real list \<Rightarrow> real list" where
  "stuckiDiffuse width height nextBufStart y x errIdx residual errorBuffer =
     (case residual of (resR, resG, resB) \<Rightarrow>
      let err = (resR / 42, resG / 42, resB / 42);
          buf1 = (if int x < int width - 1 then addRGB errorBuffer (errIdx + 3) err 8
                  else errorBuffer);
          buf2 = (if int x < int width - 2 then addRGB buf1 (errIdx + 6) err 4 else buf1)
      in if int y < int height - 1 then
           (let n1 = (if 0 < x then addRGB buf2 (nextBufStart + (x + 1) * 3) err 2 else buf2);
                n2 = addRGB n1 (nextBufStart + (x + 2) * 3) err 4;
                n3 = (if int x < int width - 1
                      then addRGB n2 (nextBufStart + (x + 3) * 3) err 8 else n2);
                n4 = (if int x < int width - 2
                      then addRGB n3 (nextBufStart + (x + 4) * 3) err 4 else n3)
            in if int x < int width - 3
               then addRGB n4 (nextBufStart + (x + 5) * 3) err 2 else n4)
         else buf2)"

definition sierraDiffuse :: "nat \<Rightarrow> nat \<Rightarrow> nat \<Rightarrow> nat \<Rightarrow> nat \<Rightarrow> nat \<Rightarrow> real \<times> real \<times> real
    \<Rightarrow> real list \<Rightarrow> real list" where
  "sierraDiffuse width height nextBufStart y x errIdx residual errorBuffer =
     (case residual of (resR, resG, resB) \<Rightarrow>
      let err = (resR / 32, resG / 32, resB / 32);
          buf1 = (if int x < int width - 1 then addRGB errorBuffer (errIdx + 3) err 5
                  else errorBuffer);
          buf2 = (if int x < int width - 2 then addRGB buf1 (errIdx + 6) err 3 else buf1)
      in if int y < int height - 1 then
           (let n1 = (if 0 < x then addRGB buf2 (nextBufStart + (x + 1) * 3) err 2 else buf2);
                n2 = addRGB n1 (nextBufStart + (x + 2) * 3) err 4;
                n3 = (if int x < int width - 1
                      then addRGB n2 (nextBufStart + (x + 3) * 3) err 5 else n2);
                n4 = (if int x < int width - 2
                      then addRGB n3 (nextBufStart + (x + 4) * 3) err 4 else n3)
            in if int x < int width - 3
               then addRGB n4 (nextBufStart + (x + 5) * 3) err 2 else n4)
         else buf2)"

definition stuckiPixel :: "nat \<Rightarrow> nat \<Rightarrow> rgb list \<Rightarrow> real \<Rightarrow> nat \<Rightarrow> nat \<Rightarrow> nat \<Rightarrow> nat
    \<Rightarrow> DiffusionState \<Rightarrow> DiffusionState option" where
  "stuckiPixel width height palette intensity y currentBufStart nextBufStart x s =
     (let idx = (y * width + x) * 4;
          errIdx = currentBufStart + (x + 2) * 3
      in case quantizePixel palette intensity idx errIdx s of
           None \<Rightarrow> None
         | Some (s', residual) \<Rightarrow>
             Some (s' \<lparr> st_errorBuffer :=
                          stuckiDiffuse width height nextBufStart y x errIdx residual
                            (st_errorBuffer s') \<rparr>))"

definition sierraPixel :: "nat \<Rightarrow> nat \<Rightarrow> rgb list \<Rightarrow> real \<Rightarrow> nat \<Rightarrow> nat \<Rightarrow> nat \<Rightarrow> nat
    \<Rightarrow> DiffusionState \<Rightarrow> DiffusionState option" where
  "sierraPixel width height palette intensity y currentBufStart nextBufStart x s =
     (let idx = (y * width + x) * 4;
          errIdx = currentBufStart + (x + 2) * 3
      in case quantizePixel palette intensity idx errIdx s of
           None \<Rightarrow> None
         | Some (s', residual) \<Rightarrow>
             Some (s' \<lparr> st_errorBuffer :=
                          sierraDiffuse width height nextBufStart y x errIdx residual
                            (st_errorBuffer s') \<rparr>))"

definition stuckiRow :: "nat \<Rightarrow> nat \<Rightarrow> rgb list \<Rightarrow> real \<Rightarrow> nat \<Rightarrow> DiffusionState
    \<Rightarrow> DiffusionState option" where
  "stuckiRow width height palette intensity y s =
     (let nextRow = 1 - st_currentRow s;
          s1 = s \<lparr> st_errorBuffer :=
                     clearRange (st_errorBuffer s) (nextRow * (width + 4) * 3)
                       ((nextRow + 1) * (width + 4) * 3) \<rparr>;
          currentBufStart = st_currentRow s * (width + 4) * 3;
          nextBufStart = nextRow * (width + 4) * 3
      in case forEach [0..<width]
                (stuckiPixel width height palette intensity y currentBufStart nextBufStart) s1 of
           None \<Rightarrow> None
         | Some s2 \<Rightarrow> Some (s2 \<lparr> st_currentRow := nextRow \<rparr>))"

definition sierraRow :: "nat \<Rightarrow> nat \<Rightarrow> rgb list \<Rightarrow> real \<Rightarrow> nat \<Rightarrow> DiffusionState
    \<Rightarrow> DiffusionState option" where
  "sierraRow width height palette intensity y s =
     (let nextRow = 1 - st_currentRow s;
          s1 = s \<lparr> st_errorBuffer :=
                     clearRange (st_errorBuffer s) (nextRow * (width + 4) * 3)
                       ((nextRow + 1) * (width + 4) * 3) \<rparr>;
          currentBufStart = st_currentRow s * (width + 4) * 3;
          nextBufStart = nextRow * (width + 4) * 3
      in case forEach [0..<width]
                (sierraPixel width height palette intensity y currentBufStart nextBufStart) s1 of
           None \<Rightarrow> None
         | Some s2 \<Rightarrow> Some (s2 \<lparr> st_currentRow := nextRow \<rparr>))"

definition stuckiDirect :: "cache \<Rightarrow> int list \<Rightarrow> nat \<Rightarrow> nat \<Rightarrow> rgb list \<Rightarrow> real
    \<Rightarrow> (int list \<times> cache) option" where
  "stuckiDirect colorCache data width height palette intensity =
     (case forEach [0..<height] (stuckiRow width height palette intensity)
             \<lparr> st_data = data, st_errorBuffer = replicate ((width + 4) * 3 * 2) 0,
               st_currentRow = 0, st_cache = colorCache \<rparr> of
        None \<Rightarrow> None
      | Some s \<Rightarrow> Some (st_data s, st_cache s))"

definition sierraDirect :: "cache \<Rightarrow> int list \<Rightarrow> nat \<Rightarrow> nat \<Rightarrow> rgb list \<Rightarrow> real
    \<Rightarrow> (int list \<times> cache) option" where
  "sierraDirect colorCache data width height palette intensity =
     (case forEach [0..<height] (sierraRow width height palette intensity)
             \<lparr> st_data = data, st_errorBuffer = replicate ((width + 4) * 3 * 2) 0,
               st_currentRow = 0, st_cache = colorCache \<rparr> of
        None \<Rightarrow> None
      | Some s \<Rightarrow> Some (st_data s, st_cache s))"

subsection \<open>The resolution-scaled path\<close>

text \<open>The two innermost \<open>for\<close> statements of the downscaling: the sums over one cell and its
  pixel count.\<close>

definition cellSums :: "int list \<Rightarrow> nat \<Rightarrow> nat \<Rightarrow> nat \<Rightarrow> nat \<Rightarrow> nat
    \<Rightarrow> int \<times> int \<times> int \<times> int \<times> nat" where
  "cellSums data width x0 x1 y0 y1 =
     fold (\<lambda>py acc.
       fold (\<lambda>px acc'.
         case acc' of (r, g, b, a, count) \<Rightarrow>
           let idx = (py * width + px) * 4
           in (r + data ! idx, g + data ! (idx + 1), b + data ! (idx + 2), a + data ! (idx + 3),
               count + 1))
         [x0..<x1] acc)
       [y0..<y1] (0, 0, 0, 0, 0)"

text \<open>
  \<open>scaledData[i] = sum / count\<close>; for an empty cell this is \<open>0 / 0 = NaN\<close>, which the
  array stores as 0.
\<close>

definition storeQuotient :: "int list \<Rightarrow> nat \<Rightarrow> int \<Rightarrow> nat \<Rightarrow> int list" where
  "storeQuotient buf i acc count =
     (if count = 0 then store buf i 0 else store buf i (of_int acc / of_nat count))"

definition downscale :: "int list \<Rightarrow> nat \<Rightarrow> nat \<Rightarrow> nat \<Rightarrow> real \<Rightarrow> real \<Rightarrow> int list" where
  "downscale data width scaledWidth scaledHeight scaleX scaleY =
     fold (\<lambda>y scaledData.
       fold (\<lambda>x scaledData'.
         let x0 = nat \<lfloor>of_nat x * scaleX\<rfloor>;
             y0 = nat \<lfloor>of_nat y * scaleY\<rfloor>;
             x1 = nat \<lfloor>(of_nat x + 1) * scaleX\<rfloor>;
             y1 = nat \<lfloor>(of_nat y + 1) * scaleY\<rfloor>
         in case cellSums data width x0 x1 y0 y1 of (r, g, b, a, count) \<Rightarrow>
              let scaledIdx = (y * scaledWidth + x) * 4
              in storeQuotient
                   (storeQuotient
                      (storeQuotient (storeQuotient scaledData' scaledIdx r count)
                         (scaledIdx + 1) g count)
                      (scaledIdx + 2) b count)
                   (scaledIdx + 3) a count)
         [0..<scaledWidth] scaledData)
       [0..<scaledHeight] (replicate (scaledWidth * scaledHeight * 4) 0)"

definition upscale :: "int list \<Rightarrow> int list \<Rightarrow> nat \<Rightarrow> nat \<Rightarrow> nat \<Rightarrow> real \<Rightarrow> real \<Rightarrow> int list" where
  "upscale data scaledData width height scaledWidth scaleX scaleY =
     fold (\<lambda>y data'.
       fold (\<lambda>x data''.
         let srcX = nat \<lfloor>of_nat x / scaleX\<rfloor>;
             srcY = nat \<lfloor>of_nat y / scaleY\<rfloor>;
             srcIdx = (srcY * scaledWidth + srcX) * 4;
             dstIdx = (y * width + x) * 4
         in store
              (store
                 (store (store data'' dstIdx (of_int (scaledData ! srcIdx)))
                    (dstIdx + 1) (of_int (scaledData ! (srcIdx + 1))))
                 (dstIdx + 2) (of_int (scaledData ! (srcIdx + 2))))
              (dstIdx + 3) (of_int (scaledData ! (srcIdx + 3))))
         [0..<width] data')
       [0..<height] data"

text \<open>
  The calls \<open>applyBayerDithering(scaledData, scaledWidth, scaledHeight, palette, intensity, 1.0)\<close>
  and its four siblings pass the resolution 1.0, for which the callee's check
  \<open>resolution < 1\<close> fails: they run the callee's direct body.
\<close>

definition applyDitheringAtLowerResolution :: "cache \<Rightarrow> int list \<Rightarrow> nat \<Rightarrow> nat \<Rightarrow> rgb list
    \<Rightarrow> real \<Rightarrow> real \<Rightarrow> DitheringKind \<Rightarrow> (int list \<times> cache) option" where
  "applyDitheringAtLowerResolution colorCache data width height palette intensity resolution type =
     (let scaledWidth = nat (max 2 \<lfloor>of_nat width * resolution\<rfloor>);
          scaledHeight = nat (max 2 \<lfloor>of_nat height * resolution\<rfloor>);
          scaleX = of_nat width / of_nat scaledWidth;
          scaleY = of_nat height / of_nat scaledHeight;
          scaledData = downscale data width scaledWidth scaledHeight scaleX scaleY
      in case (case type of
                 Bayer \<Rightarrow> bayerDirect colorCache scaledData scaledWidth scaledHeight palette intensity
               | FloydSteinberg \<Rightarrow>
                   floydSteinbergDirect colorCache scaledData scaledWidth scaledHeight palette intensity
               | JJN \<Rightarrow> jjnDirect colorCache scaledData scaledWidth scaledHeight palette intensity
               | Stucki \<Rightarrow> stuckiDirect colorCache scaledData scaledWidth scaledHeight palette intensity
               | Sierra \<Rightarrow> sierraDirect colorCache scaledData scaledWidth scaledHeight palette intensity) of
           None \<Rightarrow> None
         | Some (scaledData', colorCache') \<Rightarrow>
             Some (upscale data scaledData' width height scaledWidth scaleX scaleY, colorCache'))"

text \<open>
  The two resampling steps in the words of the specification. \<open>boxAverage\<close> is the mean
  of one channel over the source pixels of a cell, stored as a byte (0 for a cell without
  pixels); \<open>boxDownsample\<close> gives each destination cell \<open>(x, y)\<close> the mean over the
  source columns from \<open>floor(x * scaleX)\<close> up to \<open>floor((x + 1) * scaleX)\<close> and the
  rows alike; \<open>nearestUpsample\<close> gives each pixel \<open>(x, y)\<close> of the frame the bytes of
  the scaled pixel \<open>(floor(x / scaleX), floor(y / scaleY))\<close>.
\<close>

definition cellChannel :: "int list \<Rightarrow> nat \<Rightarrow> nat \<Rightarrow> nat \<Rightarrow> nat \<Rightarrow> nat \<Rightarrow> nat \<Rightarrow> int list" where
  "cellChannel data width x0 x1 y0 y1 ch =
     concat (map (\<lambda>py. map (\<lambda>px. data ! ((py * width + px) * 4 + ch)) [x0..<x1]) [y0..<y1])"

definition boxAverage :: "int list \<Rightarrow> nat \<Rightarrow> nat \<Rightarrow> nat \<Rightarrow> nat \<Rightarrow> nat \<Rightarrow> nat \<Rightarrow> int" where
  "boxAverage data width x0 x1 y0 y1 ch =
     (let cell = cellChannel data width x0 x1 y0 y1 ch
      in if cell = [] then 0 else toUint8Clamped (of_int (sum_list cell) / of_nat (length cell)))"

definition boxDownsample :: "int list \<Rightarrow> nat \<Rightarrow> nat \<Rightarrow> nat \<Rightarrow> nat \<Rightarrow> int list" where
  "boxDownsample data width height scaledWidth scaledHeight =
     map (\<lambda>i.
       let x = (i div 4) mod scaledWidth;
           y = (i div 4) div scaledWidth;
           scaleX = (of_nat width / of_nat scaledWidth :: real);
           scaleY = (of_nat height / of_nat scaledHeight :: real)
       in boxAverage data width
            (nat \<lfloor>of_nat x * scaleX\<rfloor>) (nat \<lfloor>(of_nat x + 1) * scaleX\<rfloor>)
            (nat \<lfloor>of_nat y * scaleY\<rfloor>) (nat \<lfloor>(of_nat y + 1) * scaleY\<rfloor>) (i mod 4))
       [0..<scaledWidth * scaledHeight * 4]"

definition nearestUpsample :: "int list \<Rightarrow> int list \<Rightarrow> nat \<Rightarrow> nat \<Rightarrow> nat \<Rightarrow> nat \<Rightarrow> int list" where
  "nearestUpsample data scaledData width height scaledWidth scaledHeight =
     map (\<lambda>i.
       if i < width * height * 4 then
         (let x = (i div 4) mod width;
              y = (i div 4) div width;
              srcX = nat \<lfloor>of_nat x / (of_nat width / of_nat scaledWidth :: real)\<rfloor>;
              srcY = nat \<lfloor>of_nat y / (of_nat height / of_nat scaledHeight :: real)\<rfloor>
          in scaledData ! ((srcY * scaledWidth + srcX) * 4 + i mod 4))
       else data ! i)
       [0..<length data]"

subsection \<open>The five entry points\<close>

definition applyBayerDithering :: "cache \<Rightarrow> int list \<Rightarrow> nat \<Rightarrow> nat \<Rightarrow> rgb list \<Rightarrow> real \<Rightarrow> real
    \<Rightarrow> (int list \<times> cache) option" where
  "applyBayerDithering colorCache data width height palette intensity resolution =
     (if resolution < 1
      then applyDitheringAtLowerResolution colorCache data width height palette intensity
             resolution Bayer
      else bayerDirect colorCache data width height palette intensity)"

definition applyFloydSteinbergDithering :: "cache \<Rightarrow> int list \<Rightarrow> nat \<Rightarrow> nat \<Rightarrow> rgb list \<Rightarrow> real
    \<Rightarrow> real \<Rightarrow> (int list \<times> cache) option" where
  "applyFloydSteinbergDithering colorCache data width height palette intensity resolution =
     (if resolution < 1
      then applyDitheringAtLowerResolution colorCache data width height palette intensity
             resolution FloydSteinberg
      else floydSteinbergDirect colorCache data width height palette intensity)"

definition applyJJNDithering :: "cache \<Rightarrow> int list \<Rightarrow> nat \<Rightarrow> nat \<Rightarrow> rgb list \<Rightarrow> real \<Rightarrow> real
    \<Rightarrow> (int list \<times> cache) option" where
  "applyJJNDithering colorCache data width height palette intensity resolution =
     (if resolution < 1
      then applyDitheringAtLowerResolution colorCache data width height palette intensity
             resolution JJN
      else jjnDirect colorCache data width height palette intensity)"

definition applyStuckiDithering :: "cache \<Rightarrow> int list \<Rightarrow> nat \<Rightarrow> nat \<Rightarrow> rgb list \<Rightarrow> real \<Rightarrow> real
    \<Rightarrow> (int list \<times> cache) option" where
  "applyStuckiDithering colorCache data width height palette intensity resolution =
     (if resolution < 1
      then applyDitheringAtLowerResolution colorCache data width height palette intensity
             resolution Stucki
      else stuckiDirect colorCache data width height palette intensity)"

definition applySierraDithering :: "cache \<Rightarrow> int list \<Rightarrow> nat \<Rightarrow> nat \<Rightarrow> rgb list \<Rightarrow> real \<Rightarrow> real
    \<Rightarrow> (int list \<times> cache) option" where
  "applySierraDithering colorCache data width height palette intensity resolution =
     (if resolution < 1
      then applyDitheringAtLowerResolution colorCache data width height palette intensity
             resolution Sierra
      else sierraDirect colorCache data width height palette intensity)"

text \<open>
  The five entry points under one name, indexed by the kind of dithering. The source has
  no such function; the properties below that hold for all five are stated with it.
\<close>

definition applyDithering :: "DitheringKind \<Rightarrow> cache \<Rightarrow> int list \<Rightarrow> nat \<Rightarrow> nat \<Rightarrow> rgb list
    \<Rightarrow> real \<Rightarrow> real \<Rightarrow> (int list \<times> cache) option" where
  "applyDithering kind colorCache data width height palette intensity resolution =
     (case kind of
        Bayer \<Rightarrow> applyBayerDithering colorCache data width height palette intensity resolution
      | FloydSteinberg \<Rightarrow>
          applyFloydSteinbergDithering colorCache data width height palette intensity resolution
      | JJN \<Rightarrow> applyJJNDithering colorCache data width height palette intensity resolution
      | Stucki \<Rightarrow> applyStuckiDithering colorCache data width height palette intensity resolution
      | Sierra \<Rightarrow> applySierraDithering colorCache data width height palette intensity resolution)"

text \<open>
  The resolution-scaled path in the words of the specification: downsample by box
  averaging to \<open>max(2, floor(dimension * resolution))\<close>, dither the small buffer at full
  intensity with the resolution forced to 1, upsample by nearest neighbour.
\<close>

definition scaledPathAsSpecified :: "DitheringKind \<Rightarrow> cache \<Rightarrow> int list \<Rightarrow> nat \<Rightarrow> nat
    \<Rightarrow> rgb list \<Rightarrow> real \<Rightarrow> (int list \<times> cache) option" where
  "scaledPathAsSpecified kind colorCache data width height palette resolution =
     (let scaledWidth = nat (max 2 \<lfloor>of_nat width * resolution\<rfloor>);
          scaledHeight = nat (max 2 \<lfloor>of_nat height * resolution\<rfloor>)
      in map_option
           (\<lambda>r. (nearestUpsample data (fst r) width height scaledWidth scaledHeight, snd r))
           (applyDithering kind colorCache
              (boxDownsample data width height scaledWidth scaledHeight)
              scaledWidth scaledHeight palette 1 1))"

subsection \<open>Palette reduction without dithering\<close>

text \<open>
  \<open>reduceColorsTopalette\<close> clears the cache, then walks the pixels in chunks of
  \<open>chunkSize = min(64, data.length / 4)\<close> (a whole number for a framebuffer, whose length
  is a multiple of four).
\<close>

definition reducePixel :: "rgb list \<Rightarrow> nat \<Rightarrow> int list \<times> cache \<Rightarrow> (int list \<times> cache) option" where
  "reducePixel palette idx s =
     (case s of (data, colorCache) \<Rightarrow>
        case findNearestColor colorCache (data ! idx) (data ! (idx + 1)) (data ! (idx + 2)) palette of
          (None, colorCache') \<Rightarrow> None
        | (Some (pr, pg, pb), colorCache') \<Rightarrow>
            Some (store (store (store data idx (of_int pr)) (idx + 1) (of_int pg)) (idx + 2) (of_int pb),
                  colorCache'))"

definition reduceColorsTopalette :: "cache \<Rightarrow> int list \<Rightarrow> rgb list \<Rightarrow> (int list \<times> cache) option" where
  "reduceColorsTopalette colorCache data palette =
     (let cleared = [];
          chunkSize = min 64 (length data div 4);
          chunkStarts = map (\<lambda>n. n * (4 * chunkSize))
                          [0..<(length data + 4 * chunkSize - 1) div (4 * chunkSize)]
      in forEach chunkStarts
           (\<lambda>i. forEach (takeWhile (\<lambda>j. i + j * 4 < length data) [0..<chunkSize])
                   (\<lambda>j. reducePixel palette (i + j * 4)))
           (data, cleared))"

section \<open>The export scheduler: derived quantities\<close>

datatype PaletteType =
  Full | Nes | Gameboy | Commodore64 | Atari2600 | Zxspectrum | Amstradcpc | Apple2 | Grayscale

text \<open>The fields of \<open>AnimationSettings\<close> that the export reads.\<close>

record AnimationSettings =
  loopDuration :: real
  exportLoopCount :: real
  exportFps :: real
  exportWidth :: real
  exportHeight :: real
  ditheringEnabled :: bool
  ditheringType :: DitheringKind
  ditheringIntensity :: real
  ditheringResolution :: real
  paletteType :: PaletteType

definition targetDuration :: "AnimationSettings \<Rightarrow> real" where
  "targetDuration settings = loopDuration settings * exportLoopCount settings"

definition targetFrameCount :: "AnimationSettings \<Rightarrow> int" where
  "targetFrameCount settings = mathRound (targetDuration settings * exportFps settings)"

definition exactDurationMs :: "AnimationSettings \<Rightarrow> real" where
  "exactDurationMs settings = (of_int (targetFrameCount settings) / exportFps settings) * 1000"

definition frameIntervalMs :: "AnimationSettings \<Rightarrow> real" where
  "frameIntervalMs settings = 1000 / exportFps settings"

definition stopDurationMs :: "AnimationSettings \<Rightarrow> real" where
  "stopDurationMs settings = exactDurationMs settings - (frameIntervalMs settings * (1 / 10))"

text \<open>
  The crop rectangle \<open>(cropX, cropY, cropWidth, cropHeight)\<close> of \<open>exportVideo\<close>. The
  quotients here and above are those of the program for a frame rate and for sizes other
  than zero, which is what the properties below ask for.
\<close>

record CropRect =
  cropX :: real
  cropY :: real
  cropWidth :: real
  cropHeight :: real

definition cropRect :: "AnimationSettings \<Rightarrow> real \<Rightarrow> real \<Rightarrow> CropRect" where
  "cropRect settings screenWidth screenHeight =
     (let exportAspectRatio = exportWidth settings / exportHeight settings;
          screenAspectRatio = screenWidth / screenHeight
      in if screenAspectRatio < exportAspectRatio
         then (let cropWidth' = screenWidth;
                   cropHeight' = screenWidth / exportAspectRatio
               in \<lparr> cropX = 0, cropY = (screenHeight - cropHeight') / 2,
                      cropWidth = cropWidth', cropHeight = cropHeight' \<rparr>)
         else (let cropHeight' = screenHeight;
                   cropWidth' = screenHeight * exportAspectRatio
               in \<lparr> cropX = (screenWidth - cropWidth') / 2, cropY = 0,
                      cropWidth = cropWidth', cropHeight = cropHeight' \<rparr>))"

section \<open>The export scheduler: per-frame effects, capture ticks, progress\<close>

text \<open>
  The dithering and palette block of a frame, as the GIF frame loop and the video capture
  loop each contain it. The table \<open>palettes\<close> of \<open>utils/palettes\<close> is a parameter,
  \<open>palettes p\<close> standing for \<open>palettes[p].colors\<close>.
\<close>

definition gifFrameEffects :: "(PaletteType \<Rightarrow> rgb list) \<Rightarrow> AnimationSettings \<Rightarrow> cache \<Rightarrow> int list
    \<Rightarrow> nat \<Rightarrow> nat \<Rightarrow> (int list \<times> cache) option" where
  "gifFrameEffects palettes settings colorCache data processWidth processHeight =
     (if ditheringEnabled settings \<or> paletteType settings \<noteq> Full then
        (let palette = palettes (paletteType settings)
         in if ditheringEnabled settings then
              (if ditheringType settings = Bayer
               then applyBayerDithering colorCache data processWidth processHeight palette
                      (ditheringIntensity settings) (ditheringResolution settings)
               else applyFloydSteinbergDithering colorCache data processWidth processHeight palette
                      (ditheringIntensity settings) (ditheringResolution settings))
            else reduceColorsTopalette colorCache data palette)
      else Some (data, colorCache))"

definition videoFrameEffects :: "(PaletteType \<Rightarrow> rgb list) \<Rightarrow> AnimationSettings \<Rightarrow> cache \<Rightarrow> int list
    \<Rightarrow> nat \<Rightarrow> nat \<Rightarrow> (int list \<times> cache) option" where
  "videoFrameEffects palettes settings colorCache data processWidth processHeight =
     (if ditheringEnabled settings \<or> paletteType settings \<noteq> Full then
        (let palette = palettes (paletteType settings)
         in if ditheringEnabled settings then
              (if ditheringType settings = Bayer
               then applyBayerDithering colorCache data processWidth processHeight palette
                      (ditheringIntensity settings) (ditheringResolution settings)
               else applyFloydSteinbergDithering colorCache data processWidth processHeight palette
                      (ditheringIntensity settings) (ditheringResolution settings))
            else reduceColorsTopalette colorCache data palette)
      else Some (data, colorCache))"

text \<open>
  A tick of \<open>compositeCaptureLoop\<close> (the ASCII loop and the plain loop start with the
  same test). The input of a tick is the elapsed wall-clock time in milliseconds and whether
  the drawing went through (both canvas contexts present, no exception); \<open>processed\<close>
  records the frame indices drawn to the recorded canvas, in order.
\<close>

record CaptureState =
  capturedFrames :: int
  processed :: "int list"

text \<open>\<open>Math.floor((elapsed / 1000) * settings.exportFps)\<close>\<close>

definition frameIndex :: "real \<Rightarrow> int \<Rightarrow> int" where
  "frameIndex fps elapsed = \<lfloor>(of_int elapsed / 1000) * fps\<rfloor>"

definition captureTick :: "real \<Rightarrow> int \<times> bool \<Rightarrow> CaptureState \<Rightarrow> CaptureState" where
  "captureTick fps tick s =
     (case tick of (elapsed, drawn) \<Rightarrow>
      let currentFrameNumber = frameIndex fps elapsed
      in if currentFrameNumber \<le> capturedFrames s then s
         else (let s1 = s \<lparr> capturedFrames := currentFrameNumber \<rparr>
               in if drawn then s1 \<lparr> processed := processed s1 @ [currentFrameNumber] \<rparr> else s1))"

definition captureRun :: "real \<Rightarrow> (int \<times> bool) list \<Rightarrow> CaptureState" where
  "captureRun fps ticks = fold (captureTick fps) ticks \<lparr> capturedFrames = 0, processed = [] \<rparr>"

text \<open>
  The values passed to \<open>setExportProgress\<close> by a GIF export that is not cancelled and
  captures at least one frame: the reset at the start, one value per iteration of the
  frame loop, the reset of the \<open>finally\<close> block (reached by the \<open>return\<close> that follows
  \<open>gif.render()\<close>), one value per progress event \<open>p\<close> of the encoder, and the reset of
  the \<open>finished\<close> handler.
\<close>

definition gifFrameLoopProgress :: "int \<Rightarrow> real list" where
  "gifFrameLoopProgress frameCount =
     map (\<lambda>i. of_nat i / of_int frameCount) [0..<nat frameCount]"

definition gifEncoderProgress :: "real \<Rightarrow> real" where
  "gifEncoderProgress p = 1 / 2 + p * (1 / 2)"

definition gifExportProgress :: "AnimationSettings \<Rightarrow> real list \<Rightarrow> real list" where
  "gifExportProgress settings encoderEvents =
     [0] @ gifFrameLoopProgress (targetFrameCount settings) @ [0]
       @ map gifEncoderProgress encoderEvents @ [0]"

section \<open>Concrete inputs\<close>

text \<open>A two-second loop exported once at 30 frames per second, 1080 by 1080.\<close>

definition settings60 :: AnimationSettings where
  "settings60 = \<lparr> loopDuration = 2, exportLoopCount = 1, exportFps = 30, exportWidth = 1080,
      exportHeight = 1080, ditheringEnabled = True, ditheringType = JJN, ditheringIntensity = 1,
      ditheringResolution = 1, paletteType = Nes \<rparr>"

text \<open>Timer ticks that come late, twice within a frame, and once with a failing draw.\<close>

definition jitteryTicks :: "(int \<times> bool) list" where
  "jitteryTicks = [(0, True), (10, True), (34, True), (50, True), (40, True), (67, False),
                   (70, True), (100, True), (1000, True)]"

definition blackWhite :: "rgb list" where
  "blackWhite = [(0, 0, 0), (255, 255, 255)]"

text \<open>
  A frame of four by two pixels whose alpha bytes differ within a cell, a frame of two by
  two mid-grey pixels, and a single dark pixel.
\<close>

definition frame4x2 :: "int list" where
  "frame4x2 = [10, 10, 10, 255, 10, 10, 10, 0, 10, 10, 10, 7, 10, 10, 10, 9,
               10, 10, 10, 255, 10, 10, 10, 0, 10, 10, 10, 7, 10, 10, 10, 9]"

text \<open>\<open>frame4x2\<close> in black, each pair of alpha bytes replaced by its mean.\<close>

definition frame4x2Averaged :: "int list" where
  "frame4x2Averaged = [0, 0, 0, 128, 0, 0, 0, 128, 0, 0, 0, 8, 0, 0, 0, 8,
                       0, 0, 0, 128, 0, 0, 0, 128, 0, 0, 0, 8, 0, 0, 0, 8]"

definition grey2x2 :: "int list" where
  "grey2x2 = [130, 130, 130, 255, 130, 130, 130, 255, 130, 130, 130, 255, 130, 130, 130, 255]"

definition darkPixel :: "int list" where
  "darkPixel = [10, 10, 10, 255]"

text \<open>Two grey pixels side by side.\<close>

definition twoGrey :: "int list" where
  "twoGrey = [100, 100, 100, 255, 100, 100, 100, 255]"

text \<open>
  A frame of five by three black pixels with a grey one in the middle of the first row
  and another two rows below it, and the same frame with both grey pixels white.
\<close>

definition spot5x3 :: "int list" where
  "spot5x3 = [0, 0, 0, 255, 0, 0, 0, 255, 155, 155, 155, 255, 0, 0, 0, 255, 0, 0, 0, 255,
              0, 0, 0, 255, 0, 0, 0, 255, 0, 0, 0, 255, 0, 0, 0, 255, 0, 0, 0, 255,
              0, 0, 0, 255, 0, 0, 0, 255, 130, 130, 130, 255, 0, 0, 0, 255, 0, 0, 0, 255]"

definition spot5x3Dithered :: "int list" where
  "spot5x3Dithered =
     [0, 0, 0, 255, 0, 0, 0, 255, 255, 255, 255, 255, 0, 0, 0, 255, 0, 0, 0, 255,
      0, 0, 0, 255, 0, 0, 0, 255, 0, 0, 0, 255, 0, 0, 0, 255, 0, 0, 0, 255,
      0, 0, 0, 255, 0, 0, 0, 255, 255, 255, 255, 255, 0, 0, 0, 255, 0, 0, 0, 255]"

section \<open>Invariants used in the proofs\<close>

definition inRange :: "int \<Rightarrow> bool" where
  "inRange v \<longleftrightarrow> 0 \<le> v \<and> v \<le> 255"

text \<open>
  The cache holds each key once (it is a \<open>Map\<close>), and every entry is what a scan of this
  palette gives for its colour.
\<close>

definition cacheCoherent :: "rgb list \<Rightarrow> cache \<Rightarrow> bool" where
  "cacheCoherent palette colorCache \<longleftrightarrow>
     distinct (map fst colorCache) \<and>
     (\<forall>r g b v. inRange r \<and> inRange g \<and> inRange b
        \<and> map_of colorCache (colorKey r g b) = Some v
        \<longrightarrow> v = nearestByScan r g b palette)"

text \<open>
  \<open>p\<close> is the first entry of the palette at minimal distance: the entries before it are
  strictly farther, the entries after it are not nearer.
\<close>

definition firstNearest :: "int \<Rightarrow> int \<Rightarrow> int \<Rightarrow> rgb list \<Rightarrow> rgb \<Rightarrow> bool" where
  "firstNearest r g b palette p \<longleftrightarrow>
     (\<exists>pre post. palette = pre @ p # post
        \<and> (\<forall>q \<in> set pre. sqDist r g b p < sqDist r g b q)
        \<and> (\<forall>q \<in> set post. sqDist r g b p \<le> sqDist r g b q))"

definition captureInv :: "CaptureState \<Rightarrow> bool" where
  "captureInv s \<longleftrightarrow>
     sorted_wrt (<) (processed s) \<and> (\<forall>f \<in> set (processed s). f \<le> capturedFrames s)"

text \<open>
  A palette of 8-bit colours, a cache whose values all come from the palette, and a
  framebuffer of \<open>width * height\<close> pixels.
\<close>

definition validPalette :: "rgb list \<Rightarrow> bool" where
  "validPalette palette \<longleftrightarrow>
     (\<forall>p \<in> set palette. inRange (fst p) \<and> inRange (fst (snd p)) \<and> inRange (snd (snd p)))"

definition cacheWithin :: "rgb list \<Rightarrow> cache \<Rightarrow> bool" where
  "cacheWithin palette colorCache \<longleftrightarrow>
     (\<forall>e \<in> set colorCache. \<exists>p \<in> set palette. snd e = Some p)"

definition bytes :: "int list \<Rightarrow> bool" where
  "bytes data \<longleftrightarrow> (\<forall>i < length data. inRange (data ! i))"

definition wellFormedFrame :: "int list \<Rightarrow> nat \<Rightarrow> nat \<Rightarrow> bool" where
  "wellFormedFrame data width height \<longleftrightarrow> length data = width * height * 4 \<and> bytes data"

definition pixelRGB :: "int list \<Rightarrow> nat \<Rightarrow> rgb" where
  "pixelRGB data p = (data ! (p * 4), data ! (p * 4 + 1), data ! (p * 4 + 2))"

definition pixelAlpha :: "int list \<Rightarrow> nat \<Rightarrow> int" where
  "pixelAlpha data p = data ! (p * 4 + 3)"

text \<open>
  What a dithering pass maintains: the buffer keeps its length, its bytes and every
  alpha byte of \<open>data0\<close>, and the pixels in \<open>D\<close> carry palette colours.
\<close>

definition frameRel :: "rgb list \<Rightarrow> nat set \<Rightarrow> int list \<Rightarrow> int list \<Rightarrow> bool" where
  "frameRel palette D data0 data \<longleftrightarrow>
     length data = length data0 \<and> bytes data
     \<and> (\<forall>p. p * 4 + 3 < length data \<longrightarrow> pixelAlpha data p = pixelAlpha data0 p)
     \<and> (\<forall>p \<in> D. p * 4 + 3 < length data \<longrightarrow> pixelRGB data p \<in> set palette)"

text \<open>A cache without an \<open>undefined\<close> value.\<close>

definition cacheDefined :: "cache \<Rightarrow> bool" where
  "cacheDefined colorCache \<longleftrightarrow> None \<notin> snd ` set colorCache"

text \<open>
  The shape of the outcome of a dithering call on \<open>data0\<close>: it returns, the buffer keeps
  its length, every byte lies in \<open>[0,255]\<close> and, where \<open>alphaKept\<close> is asked for, every
  pixel has the alpha byte it had.
\<close>

definition ditherShape :: "nat \<Rightarrow> nat \<Rightarrow> int list \<Rightarrow> bool \<Rightarrow> (int list \<times> cache) option \<Rightarrow> bool" where
  "ditherShape width height data0 alphaKept result \<longleftrightarrow>
     (\<exists>data c. result = Some (data, c) \<and> length data = length data0 \<and> bytes data
        \<and> (alphaKept \<longrightarrow> (\<forall>p < width * height. pixelAlpha data p = pixelAlpha data0 p))
        \<and> cacheDefined c)"

text \<open>
  The full outcome: the shape above, every pixel carries a palette colour, and the cache
  still holds palette colours only.
\<close>

definition ditherPost :: "rgb list \<Rightarrow> nat \<Rightarrow> nat \<Rightarrow> int list \<Rightarrow> bool
    \<Rightarrow> (int list \<times> cache) option \<Rightarrow> bool" where
  "ditherPost palette width height data0 alphaKept result \<longleftrightarrow>
     (\<exists>data c. result = Some (data, c) \<and> length data = length data0 \<and> bytes data
        \<and> (\<forall>p < width * height. pixelRGB data p \<in> set palette)
        \<and> (alphaKept \<longrightarrow> (\<forall>p < width * height. pixelAlpha data p = pixelAlpha data0 p))
        \<and> cacheWithin palette c)"

text \<open>
  The cache is never emptied: it does not shrink, and as long as it is below its
  capacity it still starts with the entries it had.
\<close>

definition cacheKept :: "cache \<Rightarrow> cache \<Rightarrow> bool" where
  "cacheKept colorCache colorCache' \<longleftrightarrow>
     length colorCache \<le> length colorCache'
     \<and> (length colorCache' < MAX_CACHE_SIZE \<longrightarrow> (\<exists>new. colorCache' = colorCache @ new))"

text \<open>
  One cached lookup of some colour written to pixel \<open>p\<close>, or the exception for an
  \<open>undefined\<close> result; and a run of such steps over a list of pixels.
\<close>

definition quantStep :: "rgb list \<Rightarrow> nat \<Rightarrow> int list \<times> cache \<Rightarrow> (int list \<times> cache) option
    \<Rightarrow> bool" where
  "quantStep palette p s result \<longleftrightarrow>
     (\<exists>r g b. result =
        (case findNearestColor (snd s) r g b palette of
           (None, colorCache') \<Rightarrow> None
         | (Some q, colorCache') \<Rightarrow>
             Some (store (store (store (fst s) (p * 4) (of_int (fst q)))
                           (p * 4 + 1) (of_int (fst (snd q))))
                     (p * 4 + 2) (of_int (snd (snd q))),
                   colorCache')))"

inductive quantRun :: "rgb list \<Rightarrow> nat list \<Rightarrow> int list \<times> cache \<Rightarrow> (int list \<times> cache) option
    \<Rightarrow> bool" where
  finished: "quantRun palette [] s (Some s)"
| failed: "quantStep palette p s None \<Longrightarrow> quantRun palette (p # ps) s None"
| stepped: "quantStep palette p s (Some s1) \<Longrightarrow> quantRun palette ps s1 result
         \<Longrightarrow> quantRun palette (p # ps) s result"

text \<open>Writing the four bytes of pixel \<open>p\<close>, and doing so for every pixel in raster order.\<close>

definition fillPixel :: "int list \<Rightarrow> nat \<Rightarrow> (nat \<Rightarrow> real) \<Rightarrow> int list" where
  "fillPixel buf p v =
     store (store (store (store buf (p * 4) (v 0)) (p * 4 + 1) (v 1)) (p * 4 + 2) (v 2))
       (p * 4 + 3) (v 3)"

definition rasterFill :: "nat \<Rightarrow> nat \<Rightarrow> (nat \<Rightarrow> nat \<Rightarrow> nat \<Rightarrow> real) \<Rightarrow> int list \<Rightarrow> int list" where
  "rasterFill width height v buf =
     fold (\<lambda>y b. fold (\<lambda>x b'. fillPixel b' (y * width + x) (v x y)) [0..<width] b) [0..<height] buf"

text \<open>The quotient that the downscaling stores for a channel of the cell \<open>(x, y)\<close>.\<close>

definition cellValue :: "int list \<Rightarrow> nat \<Rightarrow> real \<Rightarrow> real \<Rightarrow> nat \<Rightarrow> nat \<Rightarrow> nat \<Rightarrow> real" where
  "cellValue data width scaleX scaleY x y ch =
     (let x0 = nat \<lfloor>of_nat x * scaleX\<rfloor>; y0 = nat \<lfloor>of_nat y * scaleY\<rfloor>;
          x1 = nat \<lfloor>(of_nat x + 1) * scaleX\<rfloor>; y1 = nat \<lfloor>(of_nat y + 1) * scaleY\<rfloor>
      in if (y1 - y0) * (x1 - x0) = 0 then 0
         else of_int (sum_list (cellChannel data width x0 x1 y0 y1 ch))
                / of_nat ((y1 - y0) * (x1 - x0)))"

text \<open>The body that the entry point of a kind runs when the resolution is not below 1.\<close>

definition directBody :: "DitheringKind \<Rightarrow> cache \<Rightarrow> int list \<Rightarrow> nat \<Rightarrow> nat \<Rightarrow> rgb list \<Rightarrow> real
    \<Rightarrow> (int list \<times> cache) option" where
  "directBody kind colorCache data width height palette intensity =
     (case kind of
        Bayer \<Rightarrow> bayerDirect colorCache data width height palette intensity
      | FloydSteinberg \<Rightarrow> floydSteinbergDirect colorCache data width height palette intensity
      | JJN \<Rightarrow> jjnDirect colorCache data width height palette intensity
      | Stucki \<Rightarrow> stuckiDirect colorCache data width height palette intensity
      | Sierra \<Rightarrow> sierraDirect colorCache data width height palette intensity)"

definition stateFrame :: "DiffusionState \<Rightarrow> int list \<times> cache" where
  "stateFrame s = (st_data s, st_cache s)"

text \<open>The pixels of a frame in raster order.\<close>

definition rowPixels :: "nat \<Rightarrow> nat \<Rightarrow> nat list" where
  "rowPixels width y = map (\<lambda>x. y * width + x) [0..<width]"

definition rasterPixels :: "nat \<Rightarrow> nat \<Rightarrow> nat list" where
  "rasterPixels width height = concat (map (rowPixels width) [0..<height])"

text \<open>What the scan has found after some entries, starting from the candidate \<open>n\<close>.\<close>

definition scanPost :: "int \<Rightarrow> int \<Rightarrow> int \<Rightarrow> rgb list \<Rightarrow> rgb \<Rightarrow> rgb \<Rightarrow> bool" where
  "scanPost r g b ps n n' \<longleftrightarrow>
     (n' = n \<and> (\<forall>q \<in> set ps. sqDist r g b n \<le> sqDist r g b q))
     \<or> (sqDist r g b n' < sqDist r g b n \<and> firstNearest r g b ps n')"

text \<open>
  The error buffer of a diffusion holds one segment per row, each with \<open>border\<close> cells on
  either side of the \<open>width\<close> cells of the pixels and three channels per cell.
  \<open>pixelErrors\<close> is the part of the segment \<open>row\<close> that belongs to the pixels, which is
  all that a later pixel reads.
\<close>

definition pixelErrors :: "nat \<Rightarrow> nat \<Rightarrow> nat \<Rightarrow> real list \<Rightarrow> real list" where
  "pixelErrors border width row errorBuffer =
     take (width * 3) (drop (row * (width + 2 * border) * 3 + border * 3) errorBuffer)"

text \<open>The state in which \<open>jjnDirect\<close> enters its loop over the rows.\<close>

definition jjnInit :: "cache \<Rightarrow> int list \<Rightarrow> nat \<Rightarrow> DiffusionState" where
  "jjnInit colorCache data width =
     \<lparr> st_data = data, st_errorBuffer = replicate ((width + 6) * 3 * 3) 0,
       st_currentRow = 0, st_cache = colorCache \<rparr>"

text \<open>A state of the JJN loop with the segment \<open>row\<close> of its error buffer set to zero.\<close>

definition zeroSegment :: "nat \<Rightarrow> nat \<Rightarrow> DiffusionState \<Rightarrow> DiffusionState" where
  "zeroSegment width row s =
     s \<lparr> st_errorBuffer := clearRange (st_errorBuffer s) (row * (width + 6) * 3)
                             ((row + 1) * (width + 6) * 3) \<rparr>"

section \<open>Properties\<close>

subsection \<open>Export timing and crop\<close>

lemma mathRound_nearest: "\<bar>of_int (mathRound v) - v\<bar> \<le> 1 / 2"
  unfolding mathRound_def by linarith

text \<open>
  C7: for a positive frame rate the scheduler takes \<open>targetFrameCount\<close> as the product
  of loop duration, loop count and frame rate rounded to a nearest integer,
  \<open>exactDurationMs\<close> as that count over the frame rate times 1000, and \<open>stopDurationMs\<close>
  as a tenth of a frame interval \<open>1000 / fps\<close> less, which is before the exact end; for a
  2 s loop at 30 fps played once this is 60 frames and a stop time strictly below 2000 ms.
\<close>

theorem C7_export_timing:
  "(0 < exportFps s \<longrightarrow>
      targetFrameCount s = \<lfloor>loopDuration s * exportLoopCount s * exportFps s + 1 / 2\<rfloor>
      \<and> \<bar>of_int (targetFrameCount s) - loopDuration s * exportLoopCount s * exportFps s\<bar> \<le> 1 / 2
      \<and> exactDurationMs s = of_int (targetFrameCount s) / exportFps s * 1000
      \<and> frameIntervalMs s = 1000 / exportFps s
      \<and> stopDurationMs s = exactDurationMs s - (1 / 10) * frameIntervalMs s
      \<and> stopDurationMs s < exactDurationMs s)
   \<and> (loopDuration s = 2 \<and> exportFps s = 30 \<and> exportLoopCount s = 1
        \<longrightarrow> targetFrameCount s = 60 \<and> stopDurationMs s < 2000)"
proof -
  have a: "targetFrameCount s = \<lfloor>loopDuration s * exportLoopCount s * exportFps s + 1 / 2\<rfloor>"
    by (simp add: targetFrameCount_def targetDuration_def mathRound_def)
  have b: "\<bar>of_int (targetFrameCount s) - loopDuration s * exportLoopCount s * exportFps s\<bar> \<le> 1 / 2"
    unfolding targetFrameCount_def targetDuration_def by (rule mathRound_nearest)
  have c: "stopDurationMs s = exactDurationMs s - (1 / 10) * frameIntervalMs s"
    by (simp add: stopDurationMs_def)
  have e: "stopDurationMs s < exactDurationMs s" if "0 < exportFps s"
    using that by (simp add: stopDurationMs_def frameIntervalMs_def)
  have d: "targetFrameCount s = 60 \<and> stopDurationMs s < 2000"
    if "loopDuration s = 2 \<and> exportFps s = 30 \<and> exportLoopCount s = 1"
    using that
    by (simp add: targetFrameCount_def targetDuration_def mathRound_def stopDurationMs_def
        exactDurationMs_def frameIntervalMs_def)
  show ?thesis
    using a b c d e by (simp add: exactDurationMs_def frameIntervalMs_def)
qed

theorem C7_export_timing_witness:
  "targetFrameCount settings60 = 60 \<and> stopDurationMs settings60 < 2000
   \<and> stopDurationMs settings60 = 5990 / 3"
  using C7_export_timing [of settings60]
  by (simp add: settings60_def frameIntervalMs_def exactDurationMs_def)

text \<open>
  C8: the crop rectangle for a source and an export of positive sizes. When the export is
  wider than the source the full width is kept and the height is cut to
  \<open>sw / (ew / eh)\<close>; otherwise the full height is kept and the width is cut to
  \<open>sh * (ew / eh)\<close>. The rectangle lies inside the source (nothing is padded), is centred
  on it and has the export's aspect ratio. A 1920 by 1080 source exported at 1080 by 1080
  gives width 1080 at \<open>cropX = 420\<close>, \<open>cropY = 0\<close>.
\<close>

theorem C8_crop:
  fixes sw sh :: real and s :: AnimationSettings
  defines "c \<equiv> cropRect s sw sh" and "ea \<equiv> exportWidth s / exportHeight s"
  assumes pos: "0 < sw" "0 < sh" "0 < exportWidth s" "0 < exportHeight s"
  shows "(sw / sh < ea \<longrightarrow>
            cropWidth c = sw \<and> cropHeight c = sw / ea \<and> cropX c = 0
            \<and> cropY c = (sh - cropHeight c) / 2)
       \<and> (\<not> sw / sh < ea \<longrightarrow>
            cropHeight c = sh \<and> cropWidth c = sh * ea \<and> cropY c = 0
            \<and> cropX c = (sw - cropWidth c) / 2)
       \<and> 0 \<le> cropX c \<and> 0 \<le> cropY c \<and> 0 < cropWidth c \<and> 0 < cropHeight c
       \<and> cropX c + cropWidth c \<le> sw \<and> cropY c + cropHeight c \<le> sh
       \<and> cropX c + cropWidth c / 2 = sw / 2 \<and> cropY c + cropHeight c / 2 = sh / 2
       \<and> cropWidth c / cropHeight c = ea
       \<and> (sw = 1920 \<and> sh = 1080 \<and> exportWidth s = 1080 \<and> exportHeight s = 1080 \<longrightarrow>
            cropWidth c = 1080 \<and> cropX c = 420 \<and> cropY c = 0)"
proof -
  have p1: "sw / sh < ea \<longrightarrow>
            cropWidth c = sw \<and> cropHeight c = sw / ea \<and> cropX c = 0
            \<and> cropY c = (sh - cropHeight c) / 2"
    by (simp add: c_def ea_def cropRect_def Let_def)
  have p2: "\<not> sw / sh < ea \<longrightarrow>
            cropHeight c = sh \<and> cropWidth c = sh * ea \<and> cropY c = 0
            \<and> cropX c = (sw - cropWidth c) / 2"
    by (simp add: c_def ea_def cropRect_def Let_def)
  have ea: "0 < ea" using pos by (simp add: ea_def)
  have p3: "0 \<le> cropX c \<and> 0 \<le> cropY c \<and> 0 < cropWidth c \<and> 0 < cropHeight c
            \<and> cropX c + cropWidth c \<le> sw \<and> cropY c + cropHeight c \<le> sh
            \<and> cropX c + cropWidth c / 2 = sw / 2 \<and> cropY c + cropHeight c / 2 = sh / 2
            \<and> cropWidth c / cropHeight c = ea"
  proof (cases "sw / sh < ea")
    case True
    have v: "cropWidth c = sw" "cropHeight c = sw / ea" "cropX c = 0" "cropY c = (sh - sw / ea) / 2"
      using p1 True by simp_all
    from True ea pos have "sw < ea * sh" by (simp add: pos_divide_less_eq)
    then have lt: "sw / ea < sh" using ea by (simp add: pos_divide_less_eq mult.commute)
    have gt: "0 < sw / ea" using ea pos by simp
    have "sw / (sw / ea) = ea" using pos ea by simp
    then show ?thesis using v lt gt pos by simp
  next
    case False
    have v: "cropHeight c = sh" "cropWidth c = sh * ea" "cropY c = 0" "cropX c = (sw - sh * ea) / 2"
      using p2 False by simp_all
    from False pos have le: "sh * ea \<le> sw" by (simp add: pos_le_divide_eq not_less mult.commute)
    have gt: "0 < sh * ea" using ea pos by simp
    have "sh * ea / sh = ea" using pos by simp
    then show ?thesis using v le gt pos by simp
  qed
  have p4: "cropWidth c = 1080 \<and> cropX c = 420 \<and> cropY c = 0"
    if "sw = 1920 \<and> sh = 1080 \<and> exportWidth s = 1080 \<and> exportHeight s = 1080"
    using that by (simp add: c_def cropRect_def Let_def)
  show ?thesis using p1 p2 p3 p4 by blast
qed

theorem C8_crop_witness:
  "cropRect settings60 1920 1080 = \<lparr> cropX = 420, cropY = 0, cropWidth = 1080, cropHeight = 1080 \<rparr>
   \<and> cropX (cropRect settings60 1080 1920) = 0 \<and> cropY (cropRect settings60 1080 1920) = 420
   \<and> cropHeight (cropRect settings60 1080 1920) = 1080"
  using C8_crop [of 1920 1080 settings60] C8_crop [of 1080 1920 settings60]
  by (simp add: settings60_def)

subsection \<open>The capture loop\<close>

lemma captureTick_inv: "captureInv s \<Longrightarrow> captureInv (captureTick fps tick s)"
  by (cases tick) (fastforce simp: captureInv_def captureTick_def Let_def sorted_wrt_append)

lemma captureTick_subset:
  "set (processed (captureTick fps tick s)) \<subseteq> insert (frameIndex fps (fst tick)) (set (processed s))"
  by (cases tick) (auto simp: captureTick_def Let_def)

lemma fold_captureTick_inv: "captureInv s \<Longrightarrow> captureInv (fold (captureTick fps) ticks s)"
  by (induction ticks arbitrary: s) (simp_all add: captureTick_inv)

lemma fold_captureTick_subset:
  "set (processed (fold (captureTick fps) ticks s))
     \<subseteq> set (processed s) \<union> frameIndex fps ` fst ` set ticks"
proof (induction ticks arbitrary: s)
  case Nil
  show ?case by simp
next
  case (Cons t ticks)
  show ?case using Cons.IH [of "captureTick fps t s"] captureTick_subset [of fps t s]
    by auto
qed

lemma sorted_count_le1: "sorted_wrt (<) (xs :: int list) \<Longrightarrow> count_list xs k \<le> 1"
proof -
  assume "sorted_wrt (<) xs"
  then have "distinct xs" by (simp add: strict_sorted_iff)
  then show ?thesis
    by (induction xs) (auto simp: count_list_0_iff)
qed

text \<open>
  C6: whatever the timer does (late ticks, several ticks within a frame, a clock that
  steps back, draws that fail), the frame indices processed by the capture loop are
  strictly increasing: none is repeated, none is out of order, each frame index \<open>k\<close>
  is processed at most once, and each is the index that the elapsed time of its tick
  implies.
\<close>

theorem C6_capture_strictly_increasing:
  "sorted_wrt (<) (processed (captureRun fps ticks))
   \<and> distinct (processed (captureRun fps ticks))
   \<and> count_list (processed (captureRun fps ticks)) k \<le> 1
   \<and> set (processed (captureRun fps ticks)) \<subseteq> frameIndex fps ` fst ` set ticks"
proof -
  have "captureInv \<lparr> capturedFrames = 0, processed = [] \<rparr>"
    by (simp add: captureInv_def)
  then have "captureInv (captureRun fps ticks)"
    unfolding captureRun_def by (rule fold_captureTick_inv)
  then have s: "sorted_wrt (<) (processed (captureRun fps ticks))"
    by (simp add: captureInv_def)
  then have d: "distinct (processed (captureRun fps ticks))"
    by (simp add: strict_sorted_iff)
  have sub: "set (processed (captureRun fps ticks)) \<subseteq> frameIndex fps ` fst ` set ticks"
    using fold_captureTick_subset [of fps ticks "\<lparr> capturedFrames = 0, processed = [] \<rparr>"]
    by (simp add: captureRun_def)
  show ?thesis using s d sub sorted_count_le1 [OF s] by simp
qed

theorem C6_capture_witness:
  "processed (captureRun 30 jitteryTicks) = [1, 3, 30]
   \<and> sorted_wrt (<) (processed (captureRun 30 jitteryTicks))"
  using C6_capture_strictly_increasing [of 30 jitteryTicks 1]
  by (simp add: jitteryTicks_def captureRun_def captureTick_def frameIndex_def)

subsection \<open>The dithering dispatch of the export\<close>

text \<open>
  C4: in the GIF frame loop and in the video capture loop alike, with dithering enabled
  the type \<open>Bayer\<close> runs \<open>applyBayerDithering\<close> and every other type, among them
  \<open>JJN\<close>, \<open>Stucki\<close> and \<open>Sierra\<close>, runs \<open>applyFloydSteinbergDithering\<close>; with
  dithering disabled the frame is reduced to the palette or left alone. No setting reaches
  the JJN, Stucki or Sierra implementation.
\<close>

theorem C4_export_dispatch:
  "(ditheringEnabled s \<longrightarrow>
      gifFrameEffects palettes s c d w h =
        (if ditheringType s = Bayer
         then applyBayerDithering c d w h (palettes (paletteType s)) (ditheringIntensity s)
                (ditheringResolution s)
         else applyFloydSteinbergDithering c d w h (palettes (paletteType s)) (ditheringIntensity s)
                (ditheringResolution s))
      \<and> videoFrameEffects palettes s c d w h = gifFrameEffects palettes s c d w h)
   \<and> (ditheringEnabled s \<and> ditheringType s \<in> {JJN, Stucki, Sierra} \<longrightarrow>
        gifFrameEffects palettes s c d w h =
          applyFloydSteinbergDithering c d w h (palettes (paletteType s)) (ditheringIntensity s)
            (ditheringResolution s)
        \<and> videoFrameEffects palettes s c d w h =
          applyFloydSteinbergDithering c d w h (palettes (paletteType s)) (ditheringIntensity s)
            (ditheringResolution s))
   \<and> (\<not> ditheringEnabled s \<longrightarrow>
        gifFrameEffects palettes s c d w h =
          (if paletteType s \<noteq> Full then reduceColorsTopalette c d (palettes (paletteType s))
           else Some (d, c))
        \<and> videoFrameEffects palettes s c d w h = gifFrameEffects palettes s c d w h)"
  by (auto simp: gifFrameEffects_def videoFrameEffects_def Let_def)

lemma fs_twoGrey: "applyFloydSteinbergDithering [] twoGrey 2 1 blackWhite 1 1
   = Some ([0, 0, 0, 255, 255, 255, 255, 255],
           [(6579300, Some (0, 0, 0)), (9408399, Some (255, 255, 255))])"
  by code_simp

lemma jjn_twoGrey: "applyJJNDithering [] twoGrey 2 1 blackWhite 1 1
   = Some ([0, 0, 0, 255, 0, 0, 0, 255],
           [(6579300, Some (0, 0, 0)), (7500402, Some (0, 0, 0))])"
  by code_simp

theorem C4_export_dispatch_witness:
  "gifFrameEffects (\<lambda>_. blackWhite) settings60 [] twoGrey 2 1
     = applyFloydSteinbergDithering [] twoGrey 2 1 blackWhite 1 1
   \<and> videoFrameEffects (\<lambda>_. blackWhite) settings60 [] twoGrey 2 1
     = applyFloydSteinbergDithering [] twoGrey 2 1 blackWhite 1 1
   \<and> gifFrameEffects (\<lambda>_. blackWhite) settings60 [] twoGrey 2 1
     \<noteq> applyJJNDithering [] twoGrey 2 1 blackWhite 1 1"
  using C4_export_dispatch [of settings60 "\<lambda>_. blackWhite" "[]" twoGrey 2 1]
  by (simp add: settings60_def fs_twoGrey jjn_twoGrey del: One_nat_def)

subsection \<open>Progress of a GIF export\<close>

lemma targetFrameCount_settings60: "targetFrameCount settings60 = 60"
  by (simp add: targetFrameCount_def targetDuration_def mathRound_def settings60_def)

text \<open>
  C9: the progress reported by a GIF export of 60 frames is not monotone. The frame loop
  reports \<open>i / 60\<close> up to \<open>59 / 60\<close>; the first progress event of the encoder,
  \<open>p = 1 / 60\<close>, then reports \<open>0.5 + 0.5 * p = 61 / 120\<close>, which is lower.
\<close>

theorem C9_gif_progress_drops:
  "gifExportProgress settings60 [1 / 60] ! 60 = 59 / 60
   \<and> gifExportProgress settings60 [1 / 60] ! 62 = 61 / 120
   \<and> gifExportProgress settings60 [1 / 60] ! 62 < gifExportProgress settings60 [1 / 60] ! 60
   \<and> \<not> sorted (gifExportProgress settings60 [1 / 60])"
  by (simp add: gifExportProgress_def gifFrameLoopProgress_def gifEncoderProgress_def
      targetFrameCount_settings60 nth_append sorted_append)



subsection \<open>Kernel weights\<close>

text \<open>
  What one pixel adds to the cells that later pixels read, segment by segment. An update
  of a buffer changes the sum over a segment by the value added when the index lies in the
  segment, and not at all otherwise.
\<close>

lemma length_addAt [simp]: "length (addAt buf i v) = length buf"
  by (simp add: addAt_def)

lemma sum_list_add_nth:
  "i < length buf \<Longrightarrow> sum_list (buf[i := buf ! i + v]) = sum_list buf + (v :: real)"
proof (induction buf arbitrary: i)
  case Nil
  then show ?case by simp
next
  case (Cons a buf)
  then show ?case by (cases i) simp_all
qed

lemma length_addRGB [simp]: "length (addRGB buf i err w) = length buf"
  by (cases err) (simp add: addRGB_def)

lemma sum_segment_update:
  assumes "i < length buf"
  shows "sum_list (take n (drop lo (buf[i := buf ! i + v])))
         = sum_list (take n (drop lo buf)) + (if lo \<le> i \<and> i < lo + n then (v :: real) else 0)"
proof (cases "lo \<le> i \<and> i < lo + n")
  case True
  then have d: "drop lo (buf[i := buf ! i + v]) = (drop lo buf)[i - lo := buf ! i + v]"
    by (simp add: drop_update_swap)
  have k: "i - lo < length (take n (drop lo buf))" using True assms by (simp, linarith)
  from True have il: "i - lo < n" "lo + (i - lo) = i" by linarith+
  have "take n (drop lo buf) ! (i - lo) = drop lo buf ! (i - lo)" using il(1) by simp
  also have "\<dots> = buf ! (lo + (i - lo))" using True assms by (intro nth_drop) simp
  finally have e: "take n (drop lo buf) ! (i - lo) = buf ! i" using il(2) by simp
  have "take n ((drop lo buf)[i - lo := buf ! i + v])
        = (take n (drop lo buf))[i - lo := take n (drop lo buf) ! (i - lo) + v]"
    using True by (simp add: take_update_swap e)
  then show ?thesis using True d sum_list_add_nth [OF k, of v] by simp
next
  case False
  then consider "i < lo" | "lo \<le> i" "lo + n \<le> i" by linarith
  then have "take n (drop lo (buf[i := buf ! i + v])) = take n (drop lo buf)"
  proof cases
    case 1
    then show ?thesis by simp
  next
    case 2
    then have "drop lo (buf[i := buf ! i + v]) = (drop lo buf)[i - lo := buf ! i + v]"
      by (simp add: drop_update_swap)
    moreover have "n \<le> i - lo" using 2 by linarith
    ultimately show ?thesis by (simp add: take_update_cancel)
  qed
  then show ?thesis by (simp only: False if_False add_0_right)
qed

lemma sum_segment_addAt:
  "i < length buf \<Longrightarrow>
   sum_list (take n (drop lo (addAt buf i v)))
   = sum_list (take n (drop lo buf)) + (if lo \<le> i \<and> i < lo + n then v else 0)"
  by (simp add: addAt_def sum_segment_update)

lemma sum_segment_addRGB_in:
  "i + 2 < length buf \<Longrightarrow> lo \<le> i \<Longrightarrow> i + 2 < lo + n \<Longrightarrow>
   sum_list (take n (drop lo (addRGB buf i (eR, eG, eB) w)))
   = sum_list (take n (drop lo buf)) + w * (eR + eG + eB)"
  by (simp add: addRGB_def sum_segment_addAt algebra_simps)

lemma sum_segment_addRGB_out:
  "i + 2 < length buf \<Longrightarrow> i + 2 < lo \<or> lo + n \<le> i \<Longrightarrow>
   sum_list (take n (drop lo (addRGB buf i (eR, eG, eB) w)))
   = sum_list (take n (drop lo buf))"
  by (auto simp add: addRGB_def sum_segment_addAt)

lemma quantizePixel_errorBuffer:
  "quantizePixel palette intensity idx errIdx s = Some (t, residual)
   \<Longrightarrow> st_errorBuffer t = st_errorBuffer s"
  by (auto simp: quantizePixel_def Let_def split: option.splits prod.splits)

text \<open>
  Floyd-Steinberg, at a pixel that has a left and a right neighbour and a row below:
  \<open>7 / 16\<close> of the residual goes to the current row and \<open>9 / 16\<close> to the next one.
\<close>

lemma fsDiffuse_shares:
  fixes rr rg rb :: real
  assumes "0 < x" "x + 1 < width" "y + 1 < height" "c < 2"
    and "length buf = (width + 2) * 3 * 2"
  defines "out \<equiv> fsDiffuse width height (1 - c) y x (c * (width + 2) * 3 + (x + 1) * 3)
                     (rr, rg, rb) buf"
  shows "sum_list (pixelErrors 1 width c out)
         = sum_list (pixelErrors 1 width c buf) + 7 * ((rr + rg + rb) / 16)"
    and "sum_list (pixelErrors 1 width (1 - c) out)
         = sum_list (pixelErrors 1 width (1 - c) buf) + (3 + 5 + 1) * ((rr + rg + rb) / 16)"
proof -
  from assms(4) consider "c = 0" | "c = 1" by linarith
  then show "sum_list (pixelErrors 1 width c out)
         = sum_list (pixelErrors 1 width c buf) + 7 * ((rr + rg + rb) / 16)"
    using assms(1-3,5) unfolding out_def pixelErrors_def
    by cases (simp_all add: fsDiffuse_def Let_def sum_segment_addRGB_in sum_segment_addRGB_out
        add_divide_distrib)
  from assms(4) consider "c = 0" | "c = 1" by linarith
  then show "sum_list (pixelErrors 1 width (1 - c) out)
         = sum_list (pixelErrors 1 width (1 - c) buf) + (3 + 5 + 1) * ((rr + rg + rb) / 16)"
    using assms(1-3,5) unfolding out_def pixelErrors_def
    by cases (simp_all add: fsDiffuse_def Let_def sum_segment_addRGB_in sum_segment_addRGB_out
        add_divide_distrib)
qed

lemma fsPixel_shares:
  assumes "0 < x" "x + 1 < width" "y + 1 < height" "c < 2"
    and "length (st_errorBuffer s) = (width + 2) * 3 * 2"
    and "quantizePixel palette intensity ((y * width + x) * 4) (c * (width + 2) * 3 + (x + 1) * 3) s
         = Some (t, rr, rg, rb)"
  shows "\<exists>s'. fsPixel width height palette intensity y (c * (width + 2) * 3) (1 - c) x s = Some s'
           \<and> sum_list (pixelErrors 1 width c (st_errorBuffer s'))
             = sum_list (pixelErrors 1 width c (st_errorBuffer s)) + 7 * ((rr + rg + rb) / 16)
           \<and> sum_list (pixelErrors 1 width (1 - c) (st_errorBuffer s'))
             = sum_list (pixelErrors 1 width (1 - c) (st_errorBuffer s))
               + 9 * ((rr + rg + rb) / 16)"
proof -
  have b: "st_errorBuffer t = st_errorBuffer s" by (rule quantizePixel_errorBuffer [OF assms(6)])
  with assms(5) have l: "length (st_errorBuffer t) = (width + 2) * 3 * 2" by simp
  show ?thesis
    using fsDiffuse_shares [OF assms(1-4) l, of rr rg rb] assms(6) b
    by (simp add: fsPixel_def Let_def)
qed

text \<open>
  JJN, at a pixel with two neighbours on either side and two rows below: \<open>12 / 48\<close> of
  the residual goes to the current row, \<open>23 / 48\<close> to the next row and \<open>13 / 48\<close> to
  the row after it.
\<close>

lemma jjnDiffuse_shares:
  fixes rr rg rb :: real
  assumes "1 < x" "x + 2 < width" "y + 2 < height" "c < 3"
    and "length buf = (width + 6) * 3 * 3"
  defines "out \<equiv> jjnDiffuse width height (((c + 1) mod 3) * (width + 6) * 3)
                     (((c + 2) mod 3) * (width + 6) * 3) y x
                     (c * (width + 6) * 3 + (x + 3) * 3) (rr, rg, rb) buf"
  shows "sum_list (pixelErrors 3 width c out)
         = sum_list (pixelErrors 3 width c buf) + (7 + 5) * ((rr + rg + rb) / 48)"
    and "sum_list (pixelErrors 3 width ((c + 1) mod 3) out)
         = sum_list (pixelErrors 3 width ((c + 1) mod 3) buf)
           + (3 + 5 + 7 + 5 + 3) * ((rr + rg + rb) / 48)"
    and "sum_list (pixelErrors 3 width ((c + 2) mod 3) out)
         = sum_list (pixelErrors 3 width ((c + 2) mod 3) buf)
           + (1 + 3 + 5 + 3 + 1) * ((rr + rg + rb) / 48)"
proof -
  from assms(4) consider "c = 0" | "c = 1" | "c = 2" by linarith
  then show "sum_list (pixelErrors 3 width c out)
         = sum_list (pixelErrors 3 width c buf) + (7 + 5) * ((rr + rg + rb) / 48)"
    using assms(1-3,5) unfolding out_def pixelErrors_def
    by cases (simp_all add: jjnDiffuse_def Let_def sum_segment_addRGB_in sum_segment_addRGB_out
        add_divide_distrib)
  from assms(4) consider "c = 0" | "c = 1" | "c = 2" by linarith
  then show "sum_list (pixelErrors 3 width ((c + 1) mod 3) out)
         = sum_list (pixelErrors 3 width ((c + 1) mod 3) buf)
           + (3 + 5 + 7 + 5 + 3) * ((rr + rg + rb) / 48)"
    using assms(1-3,5) unfolding out_def pixelErrors_def
    by cases (simp_all add: jjnDiffuse_def Let_def sum_segment_addRGB_in sum_segment_addRGB_out
        add_divide_distrib)
  from assms(4) consider "c = 0" | "c = 1" | "c = 2" by linarith
  then show "sum_list (pixelErrors 3 width ((c + 2) mod 3) out)
         = sum_list (pixelErrors 3 width ((c + 2) mod 3) buf)
           + (1 + 3 + 5 + 3 + 1) * ((rr + rg + rb) / 48)"
    using assms(1-3,5) unfolding out_def pixelErrors_def
    by cases (simp_all add: jjnDiffuse_def Let_def sum_segment_addRGB_in sum_segment_addRGB_out
        add_divide_distrib)
qed

lemma jjnPixel_shares:
  assumes "1 < x" "x + 2 < width" "y + 2 < height" "c < 3"
    and "length (st_errorBuffer s) = (width + 6) * 3 * 3"
    and "quantizePixel palette intensity ((y * width + x) * 4) (c * (width + 6) * 3 + (x + 3) * 3) s
         = Some (t, rr, rg, rb)"
  shows "\<exists>s'. jjnPixel width height palette intensity y (c * (width + 6) * 3)
                (((c + 1) mod 3) * (width + 6) * 3) (((c + 2) mod 3) * (width + 6) * 3) x s
              = Some s'
           \<and> sum_list (pixelErrors 3 width c (st_errorBuffer s'))
             = sum_list (pixelErrors 3 width c (st_errorBuffer s)) + 12 * ((rr + rg + rb) / 48)
           \<and> sum_list (pixelErrors 3 width ((c + 1) mod 3) (st_errorBuffer s'))
             = sum_list (pixelErrors 3 width ((c + 1) mod 3) (st_errorBuffer s))
               + 23 * ((rr + rg + rb) / 48)
           \<and> sum_list (pixelErrors 3 width ((c + 2) mod 3) (st_errorBuffer s'))
             = sum_list (pixelErrors 3 width ((c + 2) mod 3) (st_errorBuffer s))
               + 13 * ((rr + rg + rb) / 48)"
proof -
  have b: "st_errorBuffer t = st_errorBuffer s" by (rule quantizePixel_errorBuffer [OF assms(6)])
  with assms(5) have l: "length (st_errorBuffer t) = (width + 6) * 3 * 3" by simp
  show ?thesis
    using jjnDiffuse_shares [OF assms(1-4) l, of rr rg rb] assms(6) b
    by (simp add: jjnPixel_def Let_def)
qed

text \<open>
  Stucki and Sierra, at a pixel with a left neighbour, three pixels to its right and a
  row below: \<open>12 / 42\<close> and \<open>20 / 42\<close> of the residual for Stucki, \<open>8 / 32\<close> and
  \<open>17 / 32\<close> for Sierra, so that \<open>10 / 42\<close> and \<open>7 / 32\<close> of it go nowhere.
\<close>

lemma stuckiDiffuse_shares:
  fixes rr rg rb :: real
  assumes "0 < x" "x + 3 < width" "y + 1 < height" "c < 2"
    and "length buf = (width + 4) * 3 * 2"
  defines "out \<equiv> stuckiDiffuse width height ((1 - c) * (width + 4) * 3) y x
                     (c * (width + 4) * 3 + (x + 2) * 3) (rr, rg, rb) buf"
  shows "sum_list (pixelErrors 2 width c out)
         = sum_list (pixelErrors 2 width c buf) + (8 + 4) * ((rr + rg + rb) / 42)"
    and "sum_list (pixelErrors 2 width (1 - c) out)
         = sum_list (pixelErrors 2 width (1 - c) buf)
           + (2 + 4 + 8 + 4 + 2) * ((rr + rg + rb) / 42)"
proof -
  from assms(4) consider "c = 0" | "c = 1" by linarith
  then show "sum_list (pixelErrors 2 width c out)
         = sum_list (pixelErrors 2 width c buf) + (8 + 4) * ((rr + rg + rb) / 42)"
    using assms(1-3,5) unfolding out_def pixelErrors_def
    by cases (simp_all add: stuckiDiffuse_def Let_def sum_segment_addRGB_in
        sum_segment_addRGB_out add_divide_distrib)
  from assms(4) consider "c = 0" | "c = 1" by linarith
  then show "sum_list (pixelErrors 2 width (1 - c) out)
         = sum_list (pixelErrors 2 width (1 - c) buf)
           + (2 + 4 + 8 + 4 + 2) * ((rr + rg + rb) / 42)"
    using assms(1-3,5) unfolding out_def pixelErrors_def
    by cases (simp_all add: stuckiDiffuse_def Let_def sum_segment_addRGB_in
        sum_segment_addRGB_out add_divide_distrib)
qed

lemma stuckiPixel_shares:
  assumes "0 < x" "x + 3 < width" "y + 1 < height" "c < 2"
    and "length (st_errorBuffer s) = (width + 4) * 3 * 2"
    and "quantizePixel palette intensity ((y * width + x) * 4) (c * (width + 4) * 3 + (x + 2) * 3) s
         = Some (t, rr, rg, rb)"
  shows "\<exists>s'. stuckiPixel width height palette intensity y (c * (width + 4) * 3)
                ((1 - c) * (width + 4) * 3) x s = Some s'
           \<and> sum_list (pixelErrors 2 width c (st_errorBuffer s'))
             = sum_list (pixelErrors 2 width c (st_errorBuffer s)) + 12 * ((rr + rg + rb) / 42)
           \<and> sum_list (pixelErrors 2 width (1 - c) (st_errorBuffer s'))
             = sum_list (pixelErrors 2 width (1 - c) (st_errorBuffer s))
               + 20 * ((rr + rg + rb) / 42)"
proof -
  have b: "st_errorBuffer t = st_errorBuffer s" by (rule quantizePixel_errorBuffer [OF assms(6)])
  with assms(5) have l: "length (st_errorBuffer t) = (width + 4) * 3 * 2" by simp
  show ?thesis
    using stuckiDiffuse_shares [OF assms(1-4) l, of rr rg rb] assms(6) b
    by (simp add: stuckiPixel_def Let_def)
qed

lemma sierraDiffuse_shares:
  fixes rr rg rb :: real
  assumes "0 < x" "x + 3 < width" "y + 1 < height" "c < 2"
    and "length buf = (width + 4) * 3 * 2"
  defines "out \<equiv> sierraDiffuse width height ((1 - c) * (width + 4) * 3) y x
                     (c * (width + 4) * 3 + (x + 2) * 3) (rr, rg, rb) buf"
  shows "sum_list (pixelErrors 2 width c out)
         = sum_list (pixelErrors 2 width c buf) + (5 + 3) * ((rr + rg + rb) / 32)"
    and "sum_list (pixelErrors 2 width (1 - c) out)
         = sum_list (pixelErrors 2 width (1 - c) buf)
           + (2 + 4 + 5 + 4 + 2) * ((rr + rg + rb) / 32)"
proof -
  from assms(4) consider "c = 0" | "c = 1" by linarith
  then show "sum_list (pixelErrors 2 width c out)
         = sum_list (pixelErrors 2 width c buf) + (5 + 3) * ((rr + rg + rb) / 32)"
    using assms(1-3,5) unfolding out_def pixelErrors_def
    by cases (simp_all add: sierraDiffuse_def Let_def sum_segment_addRGB_in
        sum_segment_addRGB_out add_divide_distrib)
  from assms(4) consider "c = 0" | "c = 1" by linarith
  then show "sum_list (pixelErrors 2 width (1 - c) out)
         = sum_list (pixelErrors 2 width (1 - c) buf)
           + (2 + 4 + 5 + 4 + 2) * ((rr + rg + rb) / 32)"
    using assms(1-3,5) unfolding out_def pixelErrors_def
    by cases (simp_all add: sierraDiffuse_def Let_def sum_segment_addRGB_in
        sum_segment_addRGB_out add_divide_distrib)
qed

lemma sierraPixel_shares:
  assumes "0 < x" "x + 3 < width" "y + 1 < height" "c < 2"
    and "length (st_errorBuffer s) = (width + 4) * 3 * 2"
    and "quantizePixel palette intensity ((y * width + x) * 4) (c * (width + 4) * 3 + (x + 2) * 3) s
         = Some (t, rr, rg, rb)"
  shows "\<exists>s'. sierraPixel width height palette intensity y (c * (width + 4) * 3)
                ((1 - c) * (width + 4) * 3) x s = Some s'
           \<and> sum_list (pixelErrors 2 width c (st_errorBuffer s'))
             = sum_list (pixelErrors 2 width c (st_errorBuffer s)) + 8 * ((rr + rg + rb) / 32)
           \<and> sum_list (pixelErrors 2 width (1 - c) (st_errorBuffer s'))
             = sum_list (pixelErrors 2 width (1 - c) (st_errorBuffer s))
               + 17 * ((rr + rg + rb) / 32)"
proof -
  have b: "st_errorBuffer t = st_errorBuffer s" by (rule quantizePixel_errorBuffer [OF assms(6)])
  with assms(5) have l: "length (st_errorBuffer t) = (width + 4) * 3 * 2" by simp
  show ?thesis
    using sierraDiffuse_shares [OF assms(1-4) l, of rr rg rb] assms(6) b
    by (simp add: sierraPixel_def Let_def)
qed

subsection \<open>The row buffers of JJN\<close>

lemma length_clearRange [simp]: "length (clearRange buf lo hi) = length buf"
proof -
  have "length (fold (\<lambda>i b. b[i := 0]) xs buf) = length buf" for xs :: "nat list"
    by (induction xs arbitrary: buf) simp_all
  then show ?thesis by (simp add: clearRange_def)
qed

lemma nth_clearRange:
  "j < length buf \<Longrightarrow> clearRange buf lo hi ! j = (if lo \<le> j \<and> j < hi then 0 else buf ! j)"
proof -
  have "j < length buf \<Longrightarrow>
        fold (\<lambda>i b. b[i := 0]) xs buf ! j = (if j \<in> set xs then 0 else buf ! j)"
    for xs :: "nat list"
  proof (induction xs arbitrary: buf)
    case Nil
    then show ?case by simp
  next
    case (Cons a xs)
    from Cons.prems have "j < length (buf[a := 0])" by simp
    from Cons.IH [OF this] Cons.prems show ?case by (auto simp: nth_list_update)
  qed
  then show "j < length buf \<Longrightarrow> ?thesis" by (simp add: clearRange_def)
qed

lemma clearRange_idem: "clearRange (clearRange buf lo hi) lo hi = clearRange buf lo hi"
  by (rule nth_equalityI) (simp_all add: nth_clearRange)

lemma jjnRow_currentRow:
  assumes "jjnRow width height palette intensity y s = Some t"
  shows "st_currentRow t = (st_currentRow s + 1) mod 3"
  using assms by (auto simp: jjnRow_def Let_def split: option.splits)

text \<open>A row takes nothing from the segment that it uses for the row below it.\<close>

lemma jjnRow_zeroed:
  "jjnRow width height palette intensity y (zeroSegment width ((st_currentRow s + 1) mod 3) s)
   = jjnRow width height palette intensity y s"
  by (simp add: jjnRow_def zeroSegment_def Let_def clearRange_idem)

lemma jjn_two_rows:
  "forEach [y, y + 1] (jjnRow width height palette intensity) s
   = (case jjnRow width height palette intensity y s of
        None \<Rightarrow> None
      | Some t \<Rightarrow> jjnRow width height palette intensity (y + 1)
                   (zeroSegment width ((st_currentRow s + 2) mod 3) t))"
proof (cases "jjnRow width height palette intensity y s")
  case None
  then show ?thesis by simp
next
  case (Some t)
  have "(st_currentRow t + 1) mod 3 = (st_currentRow s + 2) mod 3"
    using jjnRow_currentRow [OF Some]
    by (simp add: mod_Suc_eq Suc_eq_plus1 [symmetric] del: Suc_eq_plus1)
  with jjnRow_zeroed [of width height palette intensity "y + 1" t] Some show ?thesis
    by (simp split: option.splits)
qed

lemma jjnDirect_rows:
  "jjnDirect colorCache data width height palette intensity
   = map_option stateFrame
       (forEach [0..<height] (jjnRow width height palette intensity) (jjnInit colorCache data width))"
  by (simp add: jjnDirect_def jjnInit_def stateFrame_def split: option.splits)

lemma spot5x3_first_row:
  "map_option (pixelErrors 3 5 2 \<circ> st_errorBuffer)
     (jjnRow 5 3 blackWhite 1 0 (jjnInit [] spot5x3 5))
   = Some [- 25 / 12, - 25 / 12, - 25 / 12, - 25 / 12, - 25 / 12, - 25 / 12,
           - 25 / 4, - 25 / 4, - 25 / 4, - 125 / 12, - 125 / 12, - 125 / 12,
           - 25 / 4, - 25 / 4, - 25 / 4]"
  by code_simp

lemma spot5x3_second_row:
  "map_option (pixelErrors 3 5 2 \<circ> st_errorBuffer)
     (forEach [0..<2] (jjnRow 5 3 blackWhite 1) (jjnInit [] spot5x3 5))
   = Some [0, 0, 0, 0, 0, 0, 0, 0, 0, 0, 0, 0, 0, 0, 0]"
  by code_simp

lemma spot5x3_current_row:
  "map_option st_currentRow (forEach [0..<2] (jjnRow 5 3 blackWhite 1) (jjnInit [] spot5x3 5))
   = Some 2"
  by code_simp

lemma spot5x3_result:
  "applyJJNDithering [] spot5x3 5 3 blackWhite 1 1
   = Some (spot5x3Dithered,
           [(0, Some (0, 0, 0)), (10197915, Some (255, 255, 255)),
            (8553090, Some (255, 255, 255))])"
  by code_simp

lemma spot5x3_intended:
  "nearestByScan (truncate0 (clamp255 (130 + (- 25 / 4) * 1)))
     (truncate0 (clamp255 (130 + (- 25 / 4) * 1))) (truncate0 (clamp255 (130 + (- 25 / 4) * 1)))
     blackWhite = Some (0, 0, 0)"
  by code_simp

text \<open>
  C10: the JJN loop does not diffuse the whole residual. \<open>applyJJNDithering\<close> runs
  \<open>jjnRow\<close> over the rows, and a row starts by setting to zero both the segment of the
  next row and the segment of the row after it. The segment that row \<open>y\<close> fills for row
  \<open>y + 2\<close> is the one that row \<open>y + 1\<close> uses for its next row, so it is zero again before
  any pixel reads it: two rows run one after the other give what the second gives once
  that segment has been emptied, whatever the first had put there. Of the \<open>48 / 48\<close>
  that a pixel writes, the \<open>13 / 48\<close> for the second row below never arrive.

  On \<open>spot5x3\<close> with the palette black and white the pixel \<open>(2, 0)\<close>, grey 155, becomes
  white with the residual \<open>-100\<close> per channel and is the only pixel of its row with a
  residual. After the first row the three segments hold \<open>12 / 48\<close>, \<open>23 / 48\<close> and
  \<open>13 / 48\<close> of it, the last with \<open>-25 / 4\<close> at the pixel \<open>(2, 2)\<close>. After the second
  row the segment that the third row reads, the third one, is zero, and the pixel
  \<open>(2, 2)\<close>, grey 130, comes out white; with the \<open>-25 / 4\<close> that the first row wrote for
  it, it is black.
\<close>

theorem C10_jjn_second_row_dropped:
  "jjnDirect colorCache data width height palette intensity
     = map_option stateFrame
         (forEach [0..<height] (jjnRow width height palette intensity)
            (jjnInit colorCache data width))
   \<and> forEach [y, y + 1] (jjnRow width height palette intensity) s
     = (case jjnRow width height palette intensity y s of
          None \<Rightarrow> None
        | Some t \<Rightarrow> jjnRow width height palette intensity (y + 1)
                     (zeroSegment width ((st_currentRow s + 2) mod 3) t))
   \<and> map_option (sum_list \<circ> pixelErrors 3 5 0 \<circ> st_errorBuffer)
       (jjnRow 5 3 blackWhite 1 0 (jjnInit [] spot5x3 5))
     = Some (12 * ((- 100 + - 100 + - 100) / 48))
   \<and> map_option (sum_list \<circ> pixelErrors 3 5 1 \<circ> st_errorBuffer)
       (jjnRow 5 3 blackWhite 1 0 (jjnInit [] spot5x3 5))
     = Some (23 * ((- 100 + - 100 + - 100) / 48))
   \<and> map_option (sum_list \<circ> pixelErrors 3 5 2 \<circ> st_errorBuffer)
       (jjnRow 5 3 blackWhite 1 0 (jjnInit [] spot5x3 5))
     = Some (13 * ((- 100 + - 100 + - 100) / 48))
   \<and> map_option (pixelErrors 3 5 2 \<circ> st_errorBuffer)
       (jjnRow 5 3 blackWhite 1 0 (jjnInit [] spot5x3 5))
     = Some [- 25 / 12, - 25 / 12, - 25 / 12, - 25 / 12, - 25 / 12, - 25 / 12,
             - 25 / 4, - 25 / 4, - 25 / 4, - 125 / 12, - 125 / 12, - 125 / 12,
             - 25 / 4, - 25 / 4, - 25 / 4]
   \<and> map_option st_currentRow
       (forEach [0..<2] (jjnRow 5 3 blackWhite 1) (jjnInit [] spot5x3 5))
     = Some 2
   \<and> map_option (pixelErrors 3 5 2 \<circ> st_errorBuffer)
       (forEach [0..<2] (jjnRow 5 3 blackWhite 1) (jjnInit [] spot5x3 5))
     = Some [0, 0, 0, 0, 0, 0, 0, 0, 0, 0, 0, 0, 0, 0, 0]
   \<and> applyJJNDithering [] spot5x3 5 3 blackWhite 1 1
     = Some (spot5x3Dithered,
             [(0, Some (0, 0, 0)), (10197915, Some (255, 255, 255)),
              (8553090, Some (255, 255, 255))])
   \<and> pixelRGB spot5x3Dithered 12 = (255, 255, 255)
   \<and> nearestByScan (truncate0 (clamp255 (130 + (- 25 / 4) * 1)))
        (truncate0 (clamp255 (130 + (- 25 / 4) * 1)))
        (truncate0 (clamp255 (130 + (- 25 / 4) * 1))) blackWhite
     = Some (0, 0, 0)"
proof (intro conjI)
  show "map_option (sum_list \<circ> pixelErrors 3 5 0 \<circ> st_errorBuffer)
       (jjnRow 5 3 blackWhite 1 0 (jjnInit [] spot5x3 5))
     = Some (12 * ((- 100 + - 100 + - 100) / 48))"
    by code_simp
  show "map_option (sum_list \<circ> pixelErrors 3 5 1 \<circ> st_errorBuffer)
       (jjnRow 5 3 blackWhite 1 0 (jjnInit [] spot5x3 5))
     = Some (23 * ((- 100 + - 100 + - 100) / 48))"
    by code_simp
  show "map_option (sum_list \<circ> pixelErrors 3 5 2 \<circ> st_errorBuffer)
       (jjnRow 5 3 blackWhite 1 0 (jjnInit [] spot5x3 5))
     = Some (13 * ((- 100 + - 100 + - 100) / 48))"
    by code_simp
  show "pixelRGB spot5x3Dithered 12 = (255, 255, 255)"
    by code_simp
qed (rule jjnDirect_rows jjn_two_rows spot5x3_first_row spot5x3_second_row
      spot5x3_current_row spot5x3_result spot5x3_intended)+

subsection \<open>The quantizer\<close>

lemma scanPost_take:
  assumes "sqDist r g b p < sqDist r g b n" "scanPost r g b ps p n'"
  shows "scanPost r g b (p # ps) n n'"
proof -
  from assms(2) consider
    (same) "n' = p" "\<forall>q \<in> set ps. sqDist r g b p \<le> sqDist r g b q"
    | (later) "sqDist r g b n' < sqDist r g b p" "firstNearest r g b ps n'"
    unfolding scanPost_def by blast
  then show ?thesis
  proof cases
    case same
    have "p # ps = [] @ n' # ps" using same(1) by simp
    then have "firstNearest r g b (p # ps) n'"
      unfolding firstNearest_def using same by (intro exI [of _ "[]"] exI [of _ ps]) simp
    then show ?thesis using assms(1) same(1) by (simp add: scanPost_def)
  next
    case later
    from later(2) obtain pre post where e: "ps = pre @ n' # post"
      "\<forall>q \<in> set pre. sqDist r g b n' < sqDist r g b q"
      "\<forall>q \<in> set post. sqDist r g b n' \<le> sqDist r g b q"
      unfolding firstNearest_def by blast
    have "firstNearest r g b (p # ps) n'"
      unfolding firstNearest_def using e later(1)
      by (intro exI [of _ "p # pre"] exI [of _ post]) simp
    moreover have "sqDist r g b n' < sqDist r g b n" using later(1) assms(1) by linarith
    ultimately show ?thesis by (simp add: scanPost_def)
  qed
qed

lemma scanPost_skip:
  assumes "\<not> sqDist r g b p < sqDist r g b n" "scanPost r g b ps n n'"
  shows "scanPost r g b (p # ps) n n'"
proof -
  from assms(2) consider
    (same) "n' = n" "\<forall>q \<in> set ps. sqDist r g b n \<le> sqDist r g b q"
    | (later) "sqDist r g b n' < sqDist r g b n" "firstNearest r g b ps n'"
    unfolding scanPost_def by blast
  then show ?thesis
  proof cases
    case same
    then show ?thesis using assms(1) by (simp add: scanPost_def)
  next
    case later
    from later(2) obtain pre post where e: "ps = pre @ n' # post"
      "\<forall>q \<in> set pre. sqDist r g b n' < sqDist r g b q"
      "\<forall>q \<in> set post. sqDist r g b n' \<le> sqDist r g b q"
      unfolding firstNearest_def by blast
    have "sqDist r g b n' < sqDist r g b p" using later(1) assms(1) by linarith
    then have "firstNearest r g b (p # ps) n'"
      unfolding firstNearest_def using e
      by (intro exI [of _ "p # pre"] exI [of _ post]) simp
    then show ?thesis using later(1) by (simp add: scanPost_def)
  qed
qed

lemma scanPalette_acc:
  "\<exists>n'. scanPalette r g b ps (Some (sqDist r g b n), Some n) = (Some (sqDist r g b n'), Some n')
     \<and> scanPost r g b ps n n'"
proof (induction ps arbitrary: n)
  case Nil
  have "scanPost r g b [] n n" by (simp add: scanPost_def)
  then show ?case by (intro exI [of _ n]) simp
next
  case (Cons p ps)
  show ?case
  proof (cases "sqDist r g b p < sqDist r g b n")
    case True
    from Cons.IH [of p] obtain n' where
      s: "scanPalette r g b ps (Some (sqDist r g b p), Some p) = (Some (sqDist r g b n'), Some n')"
      and d: "scanPost r g b ps p n'"
      by blast
    have "scanPalette r g b (p # ps) (Some (sqDist r g b n), Some n)
            = (Some (sqDist r g b n'), Some n')"
      using True s by (simp add: Let_def)
    with scanPost_take [OF True d] show ?thesis by blast
  next
    case False
    from Cons.IH [of n] obtain n' where
      s: "scanPalette r g b ps (Some (sqDist r g b n), Some n) = (Some (sqDist r g b n'), Some n')"
      and d: "scanPost r g b ps n n'"
      by blast
    have "scanPalette r g b (p # ps) (Some (sqDist r g b n), Some n)
            = (Some (sqDist r g b n'), Some n')"
      using False s by (simp add: Let_def)
    with scanPost_skip [OF False d] show ?thesis by blast
  qed
qed

lemma nearestByScan_first:
  assumes "palette \<noteq> []"
  shows "\<exists>p. nearestByScan r g b palette = Some p \<and> firstNearest r g b palette p"
proof -
  from assms obtain p0 ps where pal: "palette = p0 # ps" by (cases palette) auto
  from scanPalette_acc [of r g b ps p0] obtain n' where
    s: "scanPalette r g b ps (Some (sqDist r g b p0), Some p0) = (Some (sqDist r g b n'), Some n')"
    and d: "scanPost r g b ps p0 n'"
    by blast
  have r: "nearestByScan r g b palette = Some n'"
    using s by (simp add: nearestByScan_def pal paletteHead_def Let_def)
  from d consider
    (same) "n' = p0" "\<forall>q \<in> set ps. sqDist r g b p0 \<le> sqDist r g b q"
    | (later) "sqDist r g b n' < sqDist r g b p0" "firstNearest r g b ps n'"
    unfolding scanPost_def by blast
  then have "firstNearest r g b palette n'"
  proof cases
    case same
    then show ?thesis
      unfolding firstNearest_def pal by (intro exI [of _ "[]"] exI [of _ ps]) simp
  next
    case later
    from later(2) obtain pre post where e: "ps = pre @ n' # post"
      "\<forall>q \<in> set pre. sqDist r g b n' < sqDist r g b q"
      "\<forall>q \<in> set post. sqDist r g b n' \<le> sqDist r g b q"
      unfolding firstNearest_def by blast
    then show ?thesis
      unfolding firstNearest_def pal using later(1)
      by (intro exI [of _ "p0 # pre"] exI [of _ post]) simp
  qed
  with r show ?thesis by blast
qed

lemma firstNearest_member: "firstNearest r g b palette p \<Longrightarrow> p \<in> set palette"
  unfolding firstNearest_def by auto

lemma firstNearest_minimal:
  "firstNearest r g b palette p \<Longrightarrow> q \<in> set palette \<Longrightarrow> sqDist r g b p \<le> sqDist r g b q"
  unfolding firstNearest_def by force

lemma or_disjoint_add:
  fixes a b :: int
  assumes "0 \<le> b" "b < 2 ^ n"
  shows "push_bit n a OR b = a * 2 ^ n + b"
proof -
  have tb: "take_bit n b = b" using assms by (simp add: take_bit_int_eq_self)
  have "\<not> bit (push_bit n a) k \<or> \<not> bit b k" for k
  proof (cases "k < n")
    case True
    then show ?thesis by (simp add: bit_push_bit_iff)
  next
    case False
    have "bit b k = bit (take_bit n b) k" by (simp add: tb)
    also have "\<dots> = False" using False by (simp add: bit_take_bit_iff)
    finally show ?thesis by simp
  qed
  then have "push_bit n a + b = push_bit n a OR b"
    by (rule disjunctive_add)
  then show ?thesis by (simp add: push_bit_eq_mult)
qed

lemma colorKey_arith:
  assumes "inRange r" "inRange g" "inRange b"
  shows "colorKey r g b = r * 65536 + (g * 256 + b)"
proof -
  have 1: "push_bit 8 g OR b = g * 2 ^ 8 + b"
    using assms by (intro or_disjoint_add) (simp_all add: inRange_def)
  have "0 \<le> g * 2 ^ 8 + b" "g * 2 ^ 8 + b < 2 ^ 16"
    using assms by (simp_all add: inRange_def)
  then have 2: "push_bit 16 r OR (g * 2 ^ 8 + b) = r * 2 ^ 16 + (g * 2 ^ 8 + b)"
    by (rule or_disjoint_add)
  have "colorKey r g b = push_bit 16 r OR (push_bit 8 g OR b)"
    by (simp only: colorKey_def or.assoc)
  also have "\<dots> = r * 2 ^ 16 + (g * 2 ^ 8 + b)"
    by (simp only: 1 2)
  finally show ?thesis by simp
qed

lemma colorKey_decode:
  assumes "inRange r" "inRange g" "inRange b"
  shows "colorKey r g b div 65536 = r" "(colorKey r g b mod 65536) div 256 = g"
    "colorKey r g b mod 256 = b"
proof -
  have k: "colorKey r g b = r * 65536 + (g * 256 + b)"
    using assms by (rule colorKey_arith)
  have low: "0 \<le> g * 256 + b" "g * 256 + b < 65536"
    using assms by (simp_all add: inRange_def)
  have b: "0 \<le> b" "b < 256" using assms by (simp_all add: inRange_def)
  show "colorKey r g b div 65536 = r"
    unfolding k using low by simp
  have m: "colorKey r g b mod 65536 = g * 256 + b"
    unfolding k using low by simp
  show "(colorKey r g b mod 65536) div 256 = g"
    unfolding m using b by simp
  have "colorKey r g b mod 256 = (g * 256 + b) mod 256"
    unfolding k by (simp add: mod_add_left_eq [symmetric] mod_mult_right_eq)
  then show "colorKey r g b mod 256 = b" using b by simp
qed

lemma colorKey_inj:
  assumes "inRange r" "inRange g" "inRange b" "inRange r'" "inRange g'" "inRange b'"
    and "colorKey r g b = colorKey r' g' b'"
  shows "r = r' \<and> g = g' \<and> b = b'"
  using colorKey_decode [OF assms(1-3)] colorKey_decode [OF assms(4-6)] assms(7) by simp

lemma findNearestColor_hit:
  "map_of colorCache (colorKey r g b) = Some v
   \<Longrightarrow> findNearestColor colorCache r g b palette = (v, colorCache)"
  by (simp add: findNearestColor_def)

lemma findNearestColor_miss:
  "map_of colorCache (colorKey r g b) = None
   \<Longrightarrow> findNearestColor colorCache r g b palette
       = (nearestByScan r g b palette,
          evictOldest colorCache @ [(colorKey r g b, nearestByScan r g b palette)])"
  by (simp add: findNearestColor_def Let_def)

lemma evictOldest_cases: "evictOldest c = c \<or> evictOldest c = tl c"
  by (cases c) (simp_all add: evictOldest_def)

lemma set_evictOldest: "set (evictOldest c) \<subseteq> set c"
  using evictOldest_cases [of c] by (cases c) auto

lemma map_of_evictOldest_None:
  assumes "map_of c k = None"
  shows "map_of (evictOldest c) k = None"
proof -
  from assms have "k \<notin> fst ` set c" by (simp add: map_of_eq_None_iff)
  then have "k \<notin> fst ` set (evictOldest c)" using set_evictOldest [of c] by auto
  then show ?thesis by (simp add: map_of_eq_None_iff)
qed

lemma findNearestColor_again:
  assumes a: "findNearestColor colorCache r g b palette = (v, cache')"
  shows "findNearestColor cache' r g b palette = (v, cache')"
proof (cases "map_of colorCache (colorKey r g b)")
  case None
  from a findNearestColor_miss [OF None, of palette]
  have c: "cache' = evictOldest colorCache @ [(colorKey r g b, v)]"
    by auto
  have "map_of cache' (colorKey r g b) = Some v"
    unfolding c using map_of_evictOldest_None [OF None] by (simp add: map_add_def)
  then show ?thesis by (rule findNearestColor_hit)
next
  case (Some u)
  from a findNearestColor_hit [OF Some, of palette] have "u = v" "cache' = colorCache"
    by auto
  with Some have "map_of cache' (colorKey r g b) = Some v" by simp
  then show ?thesis by (rule findNearestColor_hit)
qed

lemma cacheCoherent_empty: "cacheCoherent palette []"
  by (simp add: cacheCoherent_def)

lemma distinct_evictOldest: "distinct (map fst c) \<Longrightarrow> distinct (map fst (evictOldest c))"
  using evictOldest_cases [of c] by (cases c) auto

lemma map_of_evictOldest_Some:
  assumes "distinct (map fst c)" "map_of (evictOldest c) k = Some v"
  shows "map_of c k = Some v"
proof -
  from assms(2) have "(k, v) \<in> set (evictOldest c)" by (rule map_of_SomeD)
  then have "(k, v) \<in> set c" using set_evictOldest [of c] by auto
  with assms(1) show ?thesis by simp
qed

lemma findNearestColor_coherent:
  assumes coh: "cacheCoherent palette c" and rng: "inRange r" "inRange g" "inRange b"
    and call: "findNearestColor c r g b palette = (v, c')"
  shows "v = nearestByScan r g b palette \<and> cacheCoherent palette c'"
proof (cases "map_of c (colorKey r g b)")
  case (Some u)
  from call findNearestColor_hit [OF Some, of palette] have "u = v" "c' = c" by auto
  moreover have "u = nearestByScan r g b palette"
    using coh rng Some unfolding cacheCoherent_def by blast
  ultimately show ?thesis using coh by simp
next
  case None
  from call findNearestColor_miss [OF None, of palette]
  have v: "v = nearestByScan r g b palette"
    and c': "c' = evictOldest c @ [(colorKey r g b, v)]" by auto
  have d: "distinct (map fst c)" using coh by (simp add: cacheCoherent_def)
  have n: "map_of (evictOldest c) (colorKey r g b) = None"
    using None by (rule map_of_evictOldest_None)
  then have "colorKey r g b \<notin> fst ` set (evictOldest c)" by (simp add: map_of_eq_None_iff)
  then have d': "distinct (map fst c')"
    unfolding c' using distinct_evictOldest [OF d] by simp
  have "u = nearestByScan r' g' b' palette"
    if r': "inRange r'" "inRange g'" "inRange b'" and m: "map_of c' (colorKey r' g' b') = Some u"
    for r' g' b' u
  proof (cases "map_of (evictOldest c) (colorKey r' g' b')")
    case (Some w)
    then have "map_of c' (colorKey r' g' b') = Some w" unfolding c' by simp
    with m have "w = u" by simp
    with Some have "map_of c (colorKey r' g' b') = Some u"
      using map_of_evictOldest_Some [OF d] by simp
    then show ?thesis using coh r' unfolding cacheCoherent_def by blast
  next
    case None
    with m have k: "colorKey r' g' b' = colorKey r g b" and u: "u = v"
      unfolding c' by (auto split: if_splits)
    from colorKey_inj [OF r' rng k] v u show ?thesis by simp
  qed
  with d' v show ?thesis unfolding cacheCoherent_def by blast
qed

lemma sqDist_squares: "sqDist r g b (pr, pg, pb) = (r - pr)\<^sup>2 + (g - pg)\<^sup>2 + (b - pb)\<^sup>2"
  by (simp add: sqDist_def Let_def power2_eq_square)

lemma findNearestColor_first_minimum:
  assumes "palette \<noteq> []" "inRange r" "inRange g" "inRange b" "cacheCoherent palette colorCache"
  shows "\<exists>p cache'. findNearestColor colorCache r g b palette = (Some p, cache')
           \<and> p \<in> set palette
           \<and> (\<forall>q \<in> set palette. sqDist r g b p \<le> sqDist r g b q)
           \<and> firstNearest r g b palette p
           \<and> sqDist r g b p = (r - fst p)\<^sup>2 + (g - fst (snd p))\<^sup>2 + (b - snd (snd p))\<^sup>2
           \<and> findNearestColor cache' r g b palette = (Some p, cache')
           \<and> cacheCoherent palette cache'"
proof -
  obtain v cache' where call: "findNearestColor colorCache r g b palette = (v, cache')"
    by (cases "findNearestColor colorCache r g b palette") auto
  from findNearestColor_coherent [OF assms(5) assms(2-4) call]
  have v: "v = nearestByScan r g b palette" and coh: "cacheCoherent palette cache'" by auto
  from nearestByScan_first [OF assms(1), of r g b] obtain p
    where p: "nearestByScan r g b palette = Some p" and f: "firstNearest r g b palette p"
    by blast
  have again: "findNearestColor cache' r g b palette = (Some p, cache')"
    using findNearestColor_again [OF call] v p by simp
  have sq: "sqDist r g b p = (r - fst p)\<^sup>2 + (g - fst (snd p))\<^sup>2 + (b - snd (snd p))\<^sup>2"
    using sqDist_squares [of r g b "fst p" "fst (snd p)" "snd (snd p)"] by simp
  show ?thesis
    using call v p f again coh sq firstNearest_member [OF f] firstNearest_minimal [OF f]
    by auto
qed

text \<open>
  C2: two consecutive calls of \<open>findNearestColor\<close> with the same colour and the same
  palette return the identical result, the second leaving the cache as it is. With a
  cache that holds only results of this palette (an empty one, for instance), the result
  for a colour with channels in \<open>[0,255]\<close> and a non-empty palette is an entry of the
  palette at minimal squared Euclidean distance, the first such entry of the palette.
\<close>

theorem C2_findNearestColor_first_minimum:
  "(findNearestColor colorCache r g b palette = (v, cache1)
      \<longrightarrow> findNearestColor cache1 r g b palette = (v, cache1))
   \<and> (palette \<noteq> [] \<and> inRange r \<and> inRange g \<and> inRange b
        \<and> cacheCoherent palette colorCache
      \<longrightarrow> (\<exists>p cache'. findNearestColor colorCache r g b palette = (Some p, cache')
             \<and> p \<in> set palette
             \<and> (\<forall>q \<in> set palette. sqDist r g b p \<le> sqDist r g b q)
             \<and> firstNearest r g b palette p
             \<and> sqDist r g b p = (r - fst p)\<^sup>2 + (g - fst (snd p))\<^sup>2 + (b - snd (snd p))\<^sup>2
             \<and> findNearestColor cache' r g b palette = (Some p, cache')
             \<and> cacheCoherent palette cache'))"
  using findNearestColor_again [of colorCache r g b palette v cache1]
    findNearestColor_first_minimum [of palette r g b colorCache]
  by blast

lemma coherent_after_first_call:
  "cacheCoherent blackWhite [(657930, Some (0, 0, 0))]"
proof -
  have c: "findNearestColor [] 10 10 10 blackWhite = (Some (0, 0, 0), [(657930, Some (0, 0, 0))])"
    by code_simp
  have r: "inRange 10" by (simp add: inRange_def)
  show ?thesis
    by (rule findNearestColor_coherent [OF cacheCoherent_empty r r r c, THEN conjunct2])
qed

theorem C2_findNearestColor_witness:
  "findNearestColor [(657930, Some (0, 0, 0))] 10 10 10 blackWhite
     = (Some (0, 0, 0), [(657930, Some (0, 0, 0))])
   \<and> firstNearest 10 10 10 blackWhite (0, 0, 0)
   \<and> findNearestColor [] 130 120 140 blackWhite
     = (Some (255, 255, 255), [(8550540, Some (255, 255, 255))])
   \<and> firstNearest 130 120 140 blackWhite (255, 255, 255)"
proof -
  have e: "findNearestColor [(657930, Some (0, 0, 0))] 10 10 10 blackWhite
     = (Some (0, 0, 0), [(657930, Some (0, 0, 0))])"
    by code_simp
  have f: "findNearestColor [] 130 120 140 blackWhite
     = (Some (255, 255, 255), [(8550540, Some (255, 255, 255))])"
    by code_simp
  have r: "blackWhite \<noteq> []" "inRange 10" "inRange 130" "inRange 120" "inRange 140"
    by (simp_all add: blackWhite_def inRange_def)
  from C2_findNearestColor_first_minimum [of "[(657930, Some (0, 0, 0))]" 10 10 10 blackWhite]
    r(1,2) coherent_after_first_call
  have "firstNearest 10 10 10 blackWhite (0, 0, 0)" unfolding e by auto
  moreover from C2_findNearestColor_first_minimum [of "[]" 130 120 140 blackWhite]
    r(1,3,4,5) cacheCoherent_empty [of blackWhite]
  have "firstNearest 130 120 140 blackWhite (255, 255, 255)" unfolding f by auto
  ultimately show ?thesis using e f by simp
qed

text \<open>
  Without the hypothesis on the cache the result need not come from the palette: after
  a lookup of \<open>(10, 10, 10)\<close> under the palette \<open>[(0, 0, 0)]\<close>, the lookup of the same
  colour under the palette \<open>[(255, 255, 255)]\<close> returns \<open>(0, 0, 0)\<close>, which that
  palette does not contain.
\<close>

theorem C2_stale_cache_counterexample:
  "fst (findNearestColor (snd (findNearestColor [] 10 10 10 [(0, 0, 0)])) 10 10 10
         [(255, 255, 255)]) = Some (0, 0, 0)
   \<and> (0, 0, 0) \<notin> set [(255, 255, 255) :: rgb]"
  by code_simp


section \<open>Dithering as a run of quantization steps\<close>

subsection \<open>Bytes\<close>

lemma roundHalfEven_bounds: "\<lfloor>v\<rfloor> \<le> roundHalfEven v \<and> roundHalfEven v \<le> \<lfloor>v\<rfloor> + 1"
  by (simp add: roundHalfEven_def Let_def)

lemma toUint8Clamped_range: "inRange (toUint8Clamped v)"
proof (cases "0 < v \<and> v < 255")
  case True
  then have "0 \<le> \<lfloor>v\<rfloor>" "\<lfloor>v\<rfloor> < 255" by (simp_all add: floor_less_iff)
  with roundHalfEven_bounds [of v] have "0 \<le> roundHalfEven v" "roundHalfEven v \<le> 255"
    by linarith+
  with True show ?thesis by (simp add: toUint8Clamped_def inRange_def)
next
  case False
  then show ?thesis by (auto simp: toUint8Clamped_def inRange_def)
qed

lemma toUint8Clamped_of_int: "inRange n \<Longrightarrow> toUint8Clamped (of_int n) = n"
  by (auto simp: toUint8Clamped_def inRange_def roundHalfEven_def)

lemma length_store [simp]: "length (store buf i v) = length buf"
  by (simp add: store_def)

lemma nth_store: "j < length buf \<Longrightarrow> store buf i v ! j = (if i = j then toUint8Clamped v else buf ! j)"
  by (simp add: store_def nth_list_update)

lemma bytes_store: "bytes buf \<Longrightarrow> bytes (store buf i v)"
  by (simp add: bytes_def nth_store toUint8Clamped_range)

subsection \<open>One quantization step\<close>

lemma findNearestColor_within:
  assumes "palette \<noteq> []" "cacheWithin palette c"
  shows "\<exists>p c'. findNearestColor c r g b palette = (Some p, c') \<and> p \<in> set palette
           \<and> cacheWithin palette c'"
proof (cases "map_of c (colorKey r g b)")
  case (Some v)
  then have "(colorKey r g b, v) \<in> set c" by (rule map_of_SomeD)
  with assms(2) obtain p where "p \<in> set palette" "v = Some p"
    unfolding cacheWithin_def by force
  with findNearestColor_hit [OF Some, of palette] assms(2) show ?thesis by simp
next
  case None
  from nearestByScan_first [OF assms(1), of r g b] obtain p
    where p: "nearestByScan r g b palette = Some p" "firstNearest r g b palette p" by blast
  have m: "p \<in> set palette" using p(2) by (rule firstNearest_member)
  have "cacheWithin palette (evictOldest c @ [(colorKey r g b, Some p)])"
    using assms(2) set_evictOldest [of c] m unfolding cacheWithin_def by auto
  with findNearestColor_miss [OF None, of palette] p(1) m show ?thesis by simp
qed

lemma cacheKept_refl: "cacheKept c c"
  by (simp add: cacheKept_def)

lemma findNearestColor_kept:
  assumes "findNearestColor c r g b palette = (v, c')" "cacheKept c0 c"
  shows "cacheKept c0 c'"
proof (cases "map_of c (colorKey r g b)")
  case (Some u)
  with assms findNearestColor_hit [OF Some, of palette] show ?thesis by simp
next
  case None
  from assms(1) findNearestColor_miss [OF None, of palette]
  have c': "c' = evictOldest c @ [(colorKey r g b, v)]" by auto
  show ?thesis
  proof (cases "MAX_CACHE_SIZE \<le> length c")
    case True
    then have "c \<noteq> []" by (auto simp: MAX_CACHE_SIZE_def)
    then have "evictOldest c = tl c" using True by (cases c) (simp_all add: evictOldest_def)
    then have "length c' = length c" using \<open>c \<noteq> []\<close> by (simp add: c')
    with True assms(2) show ?thesis by (simp add: cacheKept_def)
  next
    case False
    then have e: "c' = c @ [(colorKey r g b, v)]" by (simp add: c' evictOldest_def)
    have "\<exists>new. c' = c0 @ new" if "length c' < MAX_CACHE_SIZE"
    proof -
      from that e have "length c < MAX_CACHE_SIZE" by simp
      with assms(2) obtain new where "c = c0 @ new" unfolding cacheKept_def by blast
      with e show ?thesis by simp
    qed
    with assms(2) e show ?thesis by (simp add: cacheKept_def)
  qed
qed

lemma frameRel_quantized:
  assumes rel: "frameRel palette D data0 d" and q: "q \<in> set palette" and v: "validPalette palette"
  shows "frameRel palette (insert p D) data0
           (store (store (store d (p * 4) (of_int (fst q))) (p * 4 + 1) (of_int (fst (snd q))))
              (p * 4 + 2) (of_int (snd (snd q))))"
    (is "frameRel _ _ _ ?d'")
proof -
  from v q have rq: "inRange (fst q)" "inRange (fst (snd q))" "inRange (snd (snd q))"
    by (auto simp: validPalette_def)
  have len: "length ?d' = length data0" using rel by (simp add: frameRel_def)
  have len': "length d = length data0" using rel by (simp add: frameRel_def)
  have byt: "bytes ?d'" using rel by (simp add: frameRel_def bytes_store)
  have alpha: "pixelAlpha ?d' k = pixelAlpha data0 k" if "k * 4 + 3 < length ?d'" for k
  proof -
    have "k * 4 + 3 \<noteq> p * 4" "k * 4 + 3 \<noteq> p * 4 + 1" "k * 4 + 3 \<noteq> p * 4 + 2" by presburger+
    then have "?d' ! (k * 4 + 3) = d ! (k * 4 + 3)"
      using that by (simp add: nth_store)
    moreover have "pixelAlpha d k = pixelAlpha data0 k"
      using rel that by (simp add: frameRel_def)
    ultimately show ?thesis by (simp add: pixelAlpha_def)
  qed
  have own: "pixelRGB ?d' p = q" if "p * 4 + 3 < length ?d'"
    using that rq by (cases q) (simp add: pixelRGB_def nth_store toUint8Clamped_of_int)
  have other: "pixelRGB ?d' k = pixelRGB d k" if "k * 4 + 3 < length ?d'" "k \<noteq> p" for k
  proof -
    have "k * 4 + j \<noteq> p * 4 + i" if "i < 3" "j < 3" for i j :: nat
      using that \<open>k \<noteq> p\<close> by presburger
    from this [of 0 0] this [of 1 0] this [of 2 0] this [of 0 1] this [of 1 1] this [of 2 1]
      this [of 0 2] this [of 1 2] this [of 2 2]
    show ?thesis using that(1) by (simp add: pixelRGB_def nth_store)
  qed
  have rgb: "pixelRGB ?d' k \<in> set palette" if "k \<in> insert p D" "k * 4 + 3 < length ?d'" for k
  proof (cases "k = p")
    case True
    with own that q show ?thesis by simp
  next
    case False
    with that have "k \<in> D" by simp
    then have "pixelRGB d k \<in> set palette" using rel that(2) by (simp add: frameRel_def)
    with other [OF that(2) False] show ?thesis by simp
  qed
  show ?thesis
    unfolding frameRel_def using len byt alpha rgb by blast
qed

lemma quantStep_total:
  assumes "quantStep palette p s result" "palette \<noteq> []" "validPalette palette"
    "frameRel palette D data0 (fst s)" "cacheWithin palette (snd s)"
  shows "\<exists>d' c'. result = Some (d', c') \<and> frameRel palette (insert p D) data0 d'
           \<and> cacheWithin palette c'"
proof -
  from assms(1) obtain r g b where res: "result =
        (case findNearestColor (snd s) r g b palette of
           (None, colorCache') \<Rightarrow> None
         | (Some q, colorCache') \<Rightarrow>
             Some (store (store (store (fst s) (p * 4) (of_int (fst q)))
                           (p * 4 + 1) (of_int (fst (snd q))))
                     (p * 4 + 2) (of_int (snd (snd q))),
                   colorCache'))"
    unfolding quantStep_def by blast
  from findNearestColor_within [OF assms(2) assms(5), of r g b] obtain q c'
    where f: "findNearestColor (snd s) r g b palette = (Some q, c')" "q \<in> set palette"
      "cacheWithin palette c'" by blast
  from frameRel_quantized [OF assms(4) f(2) assms(3), of p] res f show ?thesis by simp
qed

lemma quantStep_kept:
  assumes "quantStep palette p s (Some s')" "cacheKept c0 (snd s)"
  shows "cacheKept c0 (snd s')"
proof -
  from assms(1) obtain r g b where res: "Some s' =
        (case findNearestColor (snd s) r g b palette of
           (None, colorCache') \<Rightarrow> None
         | (Some q, colorCache') \<Rightarrow>
             Some (store (store (store (fst s) (p * 4) (of_int (fst q)))
                           (p * 4 + 1) (of_int (fst (snd q))))
                     (p * 4 + 2) (of_int (snd (snd q))),
                   colorCache'))"
    unfolding quantStep_def by blast
  obtain v c1 where f: "findNearestColor (snd s) r g b palette = (v, c1)"
    by (cases "findNearestColor (snd s) r g b palette") auto
  with res have "c1 = snd s'" by (cases v) auto
  with findNearestColor_kept [OF f assms(2)] show ?thesis by simp
qed

subsection \<open>Runs\<close>

lemma quantRun_total:
  assumes "quantRun palette ps s result" "palette \<noteq> []" "validPalette palette"
    "frameRel palette D data0 (fst s)" "cacheWithin palette (snd s)"
  shows "\<exists>d' c'. result = Some (d', c') \<and> frameRel palette (D \<union> set ps) data0 d'
           \<and> cacheWithin palette c'"
  using assms
proof (induction arbitrary: D rule: quantRun.induct)
  case (finished palette s)
  then show ?case by (cases s) simp
next
  case (failed palette p s ps)
  from quantStep_total [of palette p s None D data0] failed
  show ?case by simp
next
  case (stepped palette p s s1 ps result)
  from quantStep_total [of palette p s "Some s1" D data0] stepped.hyps(1)
    stepped.prems
  have "frameRel palette (insert p D) data0 (fst s1)" "cacheWithin palette (snd s1)" by auto
  from stepped.IH [OF stepped.prems(1,2) this]
  show ?case by simp
qed

lemma quantRun_kept:
  assumes "quantRun palette ps s result" "result = Some s'" "cacheKept c0 (snd s)"
  shows "cacheKept c0 (snd s')"
  using assms
proof (induction rule: quantRun.induct)
  case (finished palette s)
  then show ?case by simp
next
  case (failed palette p s ps)
  then show ?case by simp
next
  case (stepped palette p s s1 ps result)
  from quantStep_kept [of palette p s s1 c0] stepped.hyps(1) stepped.prems(2)
  have "cacheKept c0 (snd s1)" by simp
  with stepped.IH stepped.prems(1) show ?case by simp
qed

lemma quantRun_append_None:
  "quantRun palette ps s result \<Longrightarrow> result = None \<Longrightarrow> quantRun palette (ps @ qs) s None"
  by (induction rule: quantRun.induct) (auto intro: quantRun.intros)

lemma quantRun_append_Some:
  "quantRun palette ps s result \<Longrightarrow> result = Some s1 \<Longrightarrow> quantRun palette qs s1 result'
   \<Longrightarrow> quantRun palette (ps @ qs) s result'"
  by (induction rule: quantRun.induct) (auto intro: quantRun.intros)

lemma quantRun_single: "quantStep palette p s result \<Longrightarrow> quantRun palette [p] s result"
  by (cases result) (auto intro: quantRun.intros)

lemma forEach_quantRun:
  assumes "\<And>i s. i \<in> set is \<Longrightarrow> quantRun palette (G i) (proj s) (map_option proj (body i s))"
  shows "quantRun palette (concat (map G is)) (proj s) (map_option proj (forEach is body s))"
  using assms
proof (induction "is" arbitrary: s)
  case Nil
  show ?case by (simp add: quantRun.finished)
next
  case (Cons i rest)
  have first: "quantRun palette (G i) (proj s) (map_option proj (body i s))"
    using Cons.prems by simp
  show ?case
  proof (cases "body i s")
    case None
    with first have "quantRun palette (G i @ concat (map G rest)) (proj s) None"
      using quantRun_append_None by fastforce
    with None show ?thesis by simp
  next
    case (Some s1)
    have "quantRun palette (concat (map G rest)) (proj s1) (map_option proj (forEach rest body s1))"
      using Cons.IH Cons.prems by simp
    with first Some
    have "quantRun palette (G i @ concat (map G rest)) (proj s)
            (map_option proj (forEach rest body s1))"
      using quantRun_append_Some [of palette "G i" "proj s" "Some (proj s1)" "proj s1"] by simp
    with Some show ?thesis by simp
  qed
qed

lemma set_rasterPixels: "set (rasterPixels width height) = {p. p < width * height}"
proof -
  have "p \<in> set (rasterPixels width height)" if "p < width * height" for p
  proof -
    from that have w: "0 < width" by (cases width) auto
    have e: "p = (p div width) * width + p mod width" by simp
    have x: "p mod width < width" using w by simp
    have y: "p div width < height"
      using that w by (simp add: less_mult_imp_div_less mult.commute)
    have "p \<in> (\<lambda>x. (p div width) * width + x) ` {0..<width}"
      using e x by (intro image_eqI [of _ _ "p mod width"]) simp_all
    then have "p \<in> set (rowPixels width (p div width))" "p div width \<in> set [0..<height]"
      using y unfolding rowPixels_def by simp_all
    then show ?thesis
      unfolding rasterPixels_def by auto
  qed
  moreover have "p < width * height" if "p \<in> set (rasterPixels width height)" for p
  proof -
    from that obtain y where "y < height" "p < width + y * width"
      unfolding rasterPixels_def rowPixels_def by auto
    then have "p < (y + 1) * width" by simp
    also have "\<dots> \<le> height * width" using \<open>y < height\<close> by (intro mult_le_mono1) simp
    finally show ?thesis by (simp add: mult.commute)
  qed
  ultimately show ?thesis by blast
qed

subsection \<open>The five algorithms as runs of quantization steps\<close>

lemma stateFrame_simps [simp]:
  "stateFrame (s \<lparr> st_errorBuffer := e \<rparr>) = stateFrame s"
  "stateFrame (s \<lparr> st_currentRow := n \<rparr>) = stateFrame s"
  "stateFrame \<lparr> st_data = d, st_errorBuffer = e, st_currentRow = n, st_cache = c \<rparr> = (d, c)"
  by (simp_all add: stateFrame_def)

lemma quantizePixel_quant:
  "quantStep palette p (stateFrame s)
     (map_option (\<lambda>r. stateFrame (fst r)) (quantizePixel palette intensity (p * 4) errIdx s))"
proof -
  let ?r = "truncate0 (clamp255 (of_int (st_data s ! (p * 4))
              + st_errorBuffer s ! errIdx * intensity))"
  let ?g = "truncate0 (clamp255 (of_int (st_data s ! (p * 4 + 1))
              + st_errorBuffer s ! (errIdx + 1) * intensity))"
  let ?b = "truncate0 (clamp255 (of_int (st_data s ! (p * 4 + 2))
              + st_errorBuffer s ! (errIdx + 2) * intensity))"
  show ?thesis
    unfolding quantStep_def
    by (rule exI [of _ ?r], rule exI [of _ ?g], rule exI [of _ ?b])
      (simp add: quantizePixel_def Let_def stateFrame_def split: prod.splits option.splits)
qed

lemma map_option_case_Some:
  "map_option f (case r of None \<Rightarrow> None | Some v \<Rightarrow> Some (g v)) = map_option (\<lambda>v. f (g v)) r"
  by (cases r) simp_all

lemma concat_singletons: "concat (map (\<lambda>x. [f x]) xs) = map f xs"
  by (induction xs) simp_all

lemma fsPixel_run:
  "quantRun palette [y * width + x] (stateFrame s)
     (map_option stateFrame (fsPixel width height palette intensity y cur nxt x s))"
proof -
  have "map_option stateFrame (fsPixel width height palette intensity y cur nxt x s)
        = map_option (\<lambda>r. stateFrame (fst r))
            (quantizePixel palette intensity ((y * width + x) * 4) (cur + (x + 1) * 3) s)"
    by (cases "quantizePixel palette intensity ((y * width + x) * 4) (cur + (x + 1) * 3) s")
      (auto simp: fsPixel_def Let_def)
  then show ?thesis
    using quantizePixel_quant [of palette "y * width + x" s intensity "cur + (x + 1) * 3"]
    by (simp add: quantRun_single)
qed

lemma fsRow_run:
  "quantRun palette (rowPixels width y) (stateFrame s)
     (map_option stateFrame (fsRow width height palette intensity y s))"
proof -
  let ?s1 = "s \<lparr> st_errorBuffer :=
                     fold (\<lambda>i buf. buf[(1 - st_currentRow s) * (width + 2) * 3 + i := 0])
                       [0..<(width + 2) * 3] (st_errorBuffer s) \<rparr>"
  let ?body = "fsPixel width height palette intensity y (st_currentRow s * (width + 2) * 3)
                 (1 - st_currentRow s)"
  have "quantRun palette (concat (map (\<lambda>x. [y * width + x]) [0..<width])) (stateFrame ?s1)
          (map_option stateFrame (forEach [0..<width] ?body ?s1))"
    by (rule forEach_quantRun) (rule fsPixel_run)
  then show ?thesis
    by (simp add: fsRow_def Let_def map_option_case_Some concat_singletons rowPixels_def
        option.map_ident [unfolded id_def] cong: option.map_cong)
qed

lemma direct_case_stateFrame:
  "(case r of None \<Rightarrow> None | Some s \<Rightarrow> Some (st_data s, st_cache s)) = map_option stateFrame r"
  by (cases r) (simp_all add: stateFrame_def)

lemma floydSteinbergDirect_run:
  "quantRun palette (rasterPixels width height) (data, colorCache)
     (floydSteinbergDirect colorCache data width height palette intensity)"
proof -
  let ?s0 = "\<lparr> st_data = data, st_errorBuffer = replicate ((width + 2) * 3 * 2) 0,
               st_currentRow = 0, st_cache = colorCache \<rparr>"
  have "quantRun palette (concat (map (rowPixels width) [0..<height])) (stateFrame ?s0)
          (map_option stateFrame (forEach [0..<height] (fsRow width height palette intensity) ?s0))"
    by (rule forEach_quantRun) (rule fsRow_run)
  then show ?thesis
    by (simp add: floydSteinbergDirect_def direct_case_stateFrame rasterPixels_def)
qed

lemma jjnPixel_run:
  "quantRun palette [y * width + x] (stateFrame s)
     (map_option stateFrame (jjnPixel width height palette intensity y cur nxt nxt2 x s))"
proof -
  have "map_option stateFrame (jjnPixel width height palette intensity y cur nxt nxt2 x s)
        = map_option (\<lambda>r. stateFrame (fst r))
            (quantizePixel palette intensity ((y * width + x) * 4) (cur + (x + 3) * 3) s)"
    by (cases "quantizePixel palette intensity ((y * width + x) * 4) (cur + (x + 3) * 3) s")
      (auto simp: jjnPixel_def Let_def)
  then show ?thesis
    using quantizePixel_quant [of palette "y * width + x" s intensity "cur + (x + 3) * 3"]
    by (simp add: quantRun_single)
qed

lemma jjnRow_run:
  "quantRun palette (rowPixels width y) (stateFrame s)
     (map_option stateFrame (jjnRow width height palette intensity y s))"
proof -
  let ?nextRow = "(st_currentRow s + 1) mod 3"
  let ?nextNextRow = "(st_currentRow s + 2) mod 3"
  let ?s1 = "s \<lparr> st_errorBuffer :=
               clearRange
                 (clearRange (st_errorBuffer s) (?nextRow * (width + 6) * 3)
                    ((?nextRow + 1) * (width + 6) * 3))
                 (?nextNextRow * (width + 6) * 3) ((?nextNextRow + 1) * (width + 6) * 3) \<rparr>"
  let ?body = "jjnPixel width height palette intensity y (st_currentRow s * (width + 6) * 3)
                 (?nextRow * (width + 6) * 3) (?nextNextRow * (width + 6) * 3)"
  have "quantRun palette (concat (map (\<lambda>x. [y * width + x]) [0..<width])) (stateFrame ?s1)
          (map_option stateFrame (forEach [0..<width] ?body ?s1))"
    by (rule forEach_quantRun) (rule jjnPixel_run)
  then show ?thesis
    by (simp add: jjnRow_def Let_def map_option_case_Some concat_singletons rowPixels_def)
qed

lemma jjnDirect_run:
  "quantRun palette (rasterPixels width height) (data, colorCache)
     (jjnDirect colorCache data width height palette intensity)"
proof -
  let ?s0 = "\<lparr> st_data = data, st_errorBuffer = replicate ((width + 6) * 3 * 3) 0,
               st_currentRow = 0, st_cache = colorCache \<rparr>"
  have "quantRun palette (concat (map (rowPixels width) [0..<height])) (stateFrame ?s0)
          (map_option stateFrame (forEach [0..<height] (jjnRow width height palette intensity) ?s0))"
    by (rule forEach_quantRun) (rule jjnRow_run)
  then show ?thesis
    by (simp add: jjnDirect_def direct_case_stateFrame rasterPixels_def)
qed

lemma stuckiPixel_run:
  "quantRun palette [y * width + x] (stateFrame s)
     (map_option stateFrame (stuckiPixel width height palette intensity y cur nxt x s))"
proof -
  have "map_option stateFrame (stuckiPixel width height palette intensity y cur nxt x s)
        = map_option (\<lambda>r. stateFrame (fst r))
            (quantizePixel palette intensity ((y * width + x) * 4) (cur + (x + 2) * 3) s)"
    by (cases "quantizePixel palette intensity ((y * width + x) * 4) (cur + (x + 2) * 3) s")
      (auto simp: stuckiPixel_def Let_def)
  then show ?thesis
    using quantizePixel_quant [of palette "y * width + x" s intensity "cur + (x + 2) * 3"]
    by (simp add: quantRun_single)
qed

lemma stuckiRow_run:
  "quantRun palette (rowPixels width y) (stateFrame s)
     (map_option stateFrame (stuckiRow width height palette intensity y s))"
proof -
  let ?nextRow = "1 - st_currentRow s"
  let ?s1 = "s \<lparr> st_errorBuffer :=
               clearRange (st_errorBuffer s) (?nextRow * (width + 4) * 3)
                 ((?nextRow + 1) * (width + 4) * 3) \<rparr>"
  let ?body = "stuckiPixel width height palette intensity y (st_currentRow s * (width + 4) * 3)
                 (?nextRow * (width + 4) * 3)"
  have "quantRun palette (concat (map (\<lambda>x. [y * width + x]) [0..<width])) (stateFrame ?s1)
          (map_option stateFrame (forEach [0..<width] ?body ?s1))"
    by (rule forEach_quantRun) (rule stuckiPixel_run)
  then show ?thesis
    by (simp add: stuckiRow_def Let_def map_option_case_Some concat_singletons rowPixels_def)
qed

lemma stuckiDirect_run:
  "quantRun palette (rasterPixels width height) (data, colorCache)
     (stuckiDirect colorCache data width height palette intensity)"
proof -
  let ?s0 = "\<lparr> st_data = data, st_errorBuffer = replicate ((width + 4) * 3 * 2) 0,
               st_currentRow = 0, st_cache = colorCache \<rparr>"
  have "quantRun palette (concat (map (rowPixels width) [0..<height])) (stateFrame ?s0)
          (map_option stateFrame
             (forEach [0..<height] (stuckiRow width height palette intensity) ?s0))"
    by (rule forEach_quantRun) (rule stuckiRow_run)
  then show ?thesis
    by (simp add: stuckiDirect_def direct_case_stateFrame rasterPixels_def)
qed

lemma sierraPixel_run:
  "quantRun palette [y * width + x] (stateFrame s)
     (map_option stateFrame (sierraPixel width height palette intensity y cur nxt x s))"
proof -
  have "map_option stateFrame (sierraPixel width height palette intensity y cur nxt x s)
        = map_option (\<lambda>r. stateFrame (fst r))
            (quantizePixel palette intensity ((y * width + x) * 4) (cur + (x + 2) * 3) s)"
    by (cases "quantizePixel palette intensity ((y * width + x) * 4) (cur + (x + 2) * 3) s")
      (auto simp: sierraPixel_def Let_def)
  then show ?thesis
    using quantizePixel_quant [of palette "y * width + x" s intensity "cur + (x + 2) * 3"]
    by (simp add: quantRun_single)
qed

lemma sierraRow_run:
  "quantRun palette (rowPixels width y) (stateFrame s)
     (map_option stateFrame (sierraRow width height palette intensity y s))"
proof -
  let ?nextRow = "1 - st_currentRow s"
  let ?s1 = "s \<lparr> st_errorBuffer :=
               clearRange (st_errorBuffer s) (?nextRow * (width + 4) * 3)
                 ((?nextRow + 1) * (width + 4) * 3) \<rparr>"
  let ?body = "sierraPixel width height palette intensity y (st_currentRow s * (width + 4) * 3)
                 (?nextRow * (width + 4) * 3)"
  have "quantRun palette (concat (map (\<lambda>x. [y * width + x]) [0..<width])) (stateFrame ?s1)
          (map_option stateFrame (forEach [0..<width] ?body ?s1))"
    by (rule forEach_quantRun) (rule sierraPixel_run)
  then show ?thesis
    by (simp add: sierraRow_def Let_def map_option_case_Some concat_singletons rowPixels_def)
qed

lemma sierraDirect_run:
  "quantRun palette (rasterPixels width height) (data, colorCache)
     (sierraDirect colorCache data width height palette intensity)"
proof -
  let ?s0 = "\<lparr> st_data = data, st_errorBuffer = replicate ((width + 4) * 3 * 2) 0,
               st_currentRow = 0, st_cache = colorCache \<rparr>"
  have "quantRun palette (concat (map (rowPixels width) [0..<height])) (stateFrame ?s0)
          (map_option stateFrame
             (forEach [0..<height] (sierraRow width height palette intensity) ?s0))"
    by (rule forEach_quantRun) (rule sierraRow_run)
  then show ?thesis
    by (simp add: sierraDirect_def direct_case_stateFrame rasterPixels_def)
qed

lemma store3_overwrite:
  "store (store (store (store (store (store d i a) (i + 1) b) (i + 2) c) i a') (i + 1) b')
     (i + 2) c'
   = store (store (store d i a') (i + 1) b') (i + 2) c'"
  by (rule nth_equalityI) (simp_all add: nth_store)

lemma bayerPixel_run:
  "quantRun palette [k] s (map_option (\<lambda>s. s) (bayerPixel width palette ditherScale k s))"
proof -
  obtain data c where s: "s = (data, c)" by (cases s)
  define dither where "dither = of_int (bayerMatrix8x8
      ! (if width = 0 then 0 else (k div width) AND 7)
      ! (if width = 0 then 0 else (k mod width) AND 7) - 32) * ditherScale"
  define d1 where
    "d1 = store data (k * 4) (of_int (truncate0 (clamp255 (of_int (data ! (k * 4)) + dither))))"
  define d2 where
    "d2 = store d1 (k * 4 + 1) (of_int (truncate0 (clamp255 (of_int (d1 ! (k * 4 + 1)) + dither))))"
  define d3 where
    "d3 = store d2 (k * 4 + 2) (of_int (truncate0 (clamp255 (of_int (d2 ! (k * 4 + 2)) + dither))))"
  have eq: "bayerPixel width palette ditherScale k s =
      (case findNearestColor c (d3 ! (k * 4)) (d3 ! (k * 4 + 1)) (d3 ! (k * 4 + 2)) palette of
         (None, colorCache') \<Rightarrow> None
       | (Some (pr, pg, pb), colorCache') \<Rightarrow>
           Some (store (store (store d3 (k * 4) (of_int pr)) (k * 4 + 1) (of_int pg))
                   (k * 4 + 2) (of_int pb), colorCache'))"
    unfolding s bayerPixel_def d3_def d2_def d1_def dither_def by (simp only: Let_def prod.case)
  have ov: "store (store (store d3 (k * 4) x) (k * 4 + 1) y) (k * 4 + 2) z
            = store (store (store data (k * 4) x) (k * 4 + 1) y) (k * 4 + 2) z" for x y z
    unfolding d3_def d2_def d1_def by (rule store3_overwrite)
  have "quantStep palette k s (bayerPixel width palette ditherScale k s)"
    unfolding quantStep_def eq ov
    by (rule exI [of _ "d3 ! (k * 4)"], rule exI [of _ "d3 ! (k * 4 + 1)"],
        rule exI [of _ "d3 ! (k * 4 + 2)"])
      (simp add: s split: prod.splits option.splits)
  then show ?thesis by (simp add: quantRun_single option.map_ident)
qed

lemma bayerDirect_run:
  "quantRun palette [0..<(length data + 3) div 4] (data, colorCache)
     (bayerDirect colorCache data width height palette intensity)"
proof -
  let ?body = "bayerPixel width palette (255 * intensity / 64)"
  have "quantRun palette (concat (map (\<lambda>k. [k]) [0..<(length data + 3) div 4])) (data, colorCache)
          (map_option (\<lambda>s. s) (forEach [0..<(length data + 3) div 4] ?body (data, colorCache)))"
    by (rule forEach_quantRun [where proj = "\<lambda>s. s"]) (rule bayerPixel_run)
  then show ?thesis
    by (simp add: bayerDirect_def Let_def concat_singletons option.map_ident)
qed

subsection \<open>What a run leaves behind\<close>

lemma quantRun_post:
  assumes run: "quantRun palette ps (data0, c) result"
    and ps: "set ps = {p. p < width * height}"
    and wf: "wellFormedFrame data0 width height"
    and pal: "palette \<noteq> []" "validPalette palette" and cache: "cacheWithin palette c"
  shows "ditherPost palette width height data0 True result"
proof -
  have "frameRel palette {} data0 data0"
    using wf by (simp add: frameRel_def wellFormedFrame_def)
  with quantRun_total [OF run pal, of "{}" data0] cache obtain d' c'
    where r: "result = Some (d', c')" "frameRel palette (set ps) data0 d'" "cacheWithin palette c'"
    by auto
  have len: "length d' = width * height * 4"
    using r(2) wf by (simp add: frameRel_def wellFormedFrame_def)
  have "pixelRGB d' p \<in> set palette \<and> pixelAlpha d' p = pixelAlpha data0 p"
    if "p < width * height" for p
  proof -
    from that have "p * 4 + 3 < length d'" unfolding len by simp
    with r(2) that ps show ?thesis by (simp add: frameRel_def)
  qed
  with r show ?thesis by (simp add: ditherPost_def frameRel_def)
qed

lemma quantRun_cacheKept:
  assumes "quantRun palette ps (data, c) (Some (data', c'))"
  shows "cacheKept c c'"
  using quantRun_kept [OF assms refl, of c] by (simp add: cacheKept_refl)

subsection \<open>Filling a frame pixel by pixel\<close>

lemma length_fillPixel [simp]: "length (fillPixel buf p v) = length buf"
  by (simp add: fillPixel_def)

lemma nth_fillPixel:
  assumes "i < length buf"
  shows "fillPixel buf p v ! i = (if i div 4 = p then toUint8Clamped (v (i mod 4)) else buf ! i)"
proof (cases "i div 4 = p")
  case True
  then have "i = p * 4 + i mod 4" by auto
  moreover have "i mod 4 = 0 \<or> i mod 4 = 1 \<or> i mod 4 = 2 \<or> i mod 4 = 3" by presburger
  ultimately consider "i = p * 4" "i mod 4 = 0" | "i = p * 4 + 1" "i mod 4 = 1"
    | "i = p * 4 + 2" "i mod 4 = 2" | "i = p * 4 + 3" "i mod 4 = 3" by fastforce
  then show ?thesis
    using assms True by cases (simp_all add: fillPixel_def nth_store)
next
  case False
  then have "i \<noteq> p * 4" "i \<noteq> p * 4 + 1" "i \<noteq> p * 4 + 2" "i \<noteq> p * 4 + 3" by auto
  with assms False show ?thesis by (simp add: fillPixel_def nth_store)
qed

lemma bytes_fillPixel: "bytes buf \<Longrightarrow> bytes (fillPixel buf p v)"
  by (simp add: fillPixel_def bytes_store)

lemma fillRow_props:
  "length (fold (\<lambda>x b'. fillPixel b' (base + x) (v x)) [0..<n] buf) = length buf
   \<and> (\<forall>i < length buf.
        fold (\<lambda>x b'. fillPixel b' (base + x) (v x)) [0..<n] buf ! i
          = (if base \<le> i div 4 \<and> i div 4 < base + n
             then toUint8Clamped (v (i div 4 - base) (i mod 4)) else buf ! i))"
proof (induction n)
  case 0
  show ?case by simp
next
  case (Suc n)
  let ?prev = "fold (\<lambda>x b'. fillPixel b' (base + x) (v x)) [0..<n] buf"
  have len: "length ?prev = length buf" using Suc by simp
  have "fillPixel ?prev (base + n) (v n) ! i
          = (if base \<le> i div 4 \<and> i div 4 < base + Suc n
             then toUint8Clamped (v (i div 4 - base) (i mod 4)) else buf ! i)"
    if "i < length buf" for i
  proof (cases "i div 4 = base + n")
    case True
    then show ?thesis using that len by (simp add: nth_fillPixel)
  next
    case False
    then have "fillPixel ?prev (base + n) (v n) ! i = ?prev ! i"
      using that len by (simp add: nth_fillPixel)
    also have "\<dots> = (if base \<le> i div 4 \<and> i div 4 < base + n
             then toUint8Clamped (v (i div 4 - base) (i mod 4)) else buf ! i)"
      using Suc that by simp
    finally show ?thesis using False by auto
  qed
  then show ?case using len by simp
qed

lemma rasterFill_props:
  "length (rasterFill width height v buf) = length buf
   \<and> (\<forall>i < length buf.
        rasterFill width height v buf ! i
          = (if i div 4 < height * width
             then toUint8Clamped (v ((i div 4) mod width) ((i div 4) div width) (i mod 4))
             else buf ! i))"
proof (induction height)
  case 0
  show ?case by (simp add: rasterFill_def)
next
  case (Suc h)
  let ?prev = "rasterFill width h v buf"
  let ?row = "fold (\<lambda>x b'. fillPixel b' (h * width + x) (\<lambda>ch. v x h ch)) [0..<width] ?prev"
  have unfold: "rasterFill width (Suc h) v buf = ?row"
    by (simp add: rasterFill_def)
  have len: "length ?prev = length buf" using Suc by simp
  note row = fillRow_props [of "h * width" "\<lambda>x ch. v x h ch" width ?prev]
  have "?row ! i
          = (if i div 4 < Suc h * width
             then toUint8Clamped (v ((i div 4) mod width) ((i div 4) div width) (i mod 4))
             else buf ! i)"
    if "i < length buf" for i
  proof (cases "h * width \<le> i div 4 \<and> i div 4 < h * width + width")
    case True
    then have w: "0 < width" by (cases width) auto
    from True have d: "(i div 4) div width = h"
      using w by (metis add.commute div_nat_eqI mult.commute mult_Suc)
    then have m: "(i div 4) mod width = i div 4 - h * width"
      by (metis minus_mult_div_eq_mod mult.commute)
    from row that len True have "?row ! i = toUint8Clamped (v (i div 4 - h * width) h (i mod 4))"
      by simp
    with d m True show ?thesis by simp
  next
    case False
    with row that len have "?row ! i = ?prev ! i" by auto
    also have "\<dots> = (if i div 4 < h * width
             then toUint8Clamped (v ((i div 4) mod width) ((i div 4) div width) (i mod 4))
             else buf ! i)"
      using Suc that by simp
    finally show ?thesis using False by auto
  qed
  moreover have "length ?row = length buf" using row len by simp
  ultimately show ?case unfolding unfold by simp
qed

lemma bytes_rasterFill: "bytes buf \<Longrightarrow> bytes (rasterFill width height v buf)"
  using rasterFill_props [of width height v buf]
  by (simp add: bytes_def toUint8Clamped_range)

subsection \<open>Downscaling and upscaling\<close>

lemma cellRow_sums:
  "fold (\<lambda>px acc'. case acc' of (r, g, b, a, count) \<Rightarrow>
           (r + f0 px, g + f1 px, b + f2 px, a + f3 px, Suc count)) xs (r, g, b, a, n)
   = (r + sum_list (map f0 xs), g + sum_list (map f1 xs), b + sum_list (map f2 xs),
      a + sum_list (map f3 xs), n + length xs)"
  for r g b a :: int and n :: nat
  by (induction xs arbitrary: r g b a n) simp_all

lemma cellRows_sums:
  "fold (\<lambda>py acc. fold (\<lambda>px acc'. case acc' of (r, g, b, a, count) \<Rightarrow>
           (r + f0 py px, g + f1 py px, b + f2 py px, a + f3 py px, Suc count)) xs acc)
     ys (r, g, b, a, n)
   = (r + sum_list (concat (map (\<lambda>py. map (f0 py) xs) ys)),
      g + sum_list (concat (map (\<lambda>py. map (f1 py) xs) ys)),
      b + sum_list (concat (map (\<lambda>py. map (f2 py) xs) ys)),
      a + sum_list (concat (map (\<lambda>py. map (f3 py) xs) ys)),
      n + length ys * length xs)"
  for r g b a :: int and n :: nat
  by (induction ys arbitrary: r g b a n) (simp_all add: cellRow_sums)

lemma length_cellChannel: "length (cellChannel data width x0 x1 y0 y1 ch) = (y1 - y0) * (x1 - x0)"
  by (simp add: cellChannel_def length_concat comp_def sum_list_triv)

lemma cellSums_eq:
  "cellSums data width x0 x1 y0 y1
   = (sum_list (cellChannel data width x0 x1 y0 y1 0), sum_list (cellChannel data width x0 x1 y0 y1 1),
      sum_list (cellChannel data width x0 x1 y0 y1 2), sum_list (cellChannel data width x0 x1 y0 y1 3),
      (y1 - y0) * (x1 - x0))"
  unfolding cellSums_def Let_def cellChannel_def
  using cellRows_sums [of "\<lambda>py px. data ! ((py * width + px) * 4)"
      "\<lambda>py px. data ! ((py * width + px) * 4 + 1)" "\<lambda>py px. data ! ((py * width + px) * 4 + 2)"
      "\<lambda>py px. data ! ((py * width + px) * 4 + 3)" "[x0..<x1]" "[y0..<y1]" 0 0 0 0 0]
  by simp

lemma storeQuotient_store:
  "storeQuotient buf i acc count = store buf i (if count = 0 then 0 else of_int acc / of_nat count)"
  by (simp add: storeQuotient_def)

lemma downscale_rasterFill:
  "downscale data width scaledWidth scaledHeight scaleX scaleY
   = rasterFill scaledWidth scaledHeight (cellValue data width scaleX scaleY)
       (replicate (scaledWidth * scaledHeight * 4) 0)"
  unfolding downscale_def rasterFill_def fillPixel_def
  by (simp add: Let_def cellSums_eq storeQuotient_store cellValue_def)

lemma toUint8Clamped_cellValue:
  "toUint8Clamped (cellValue data width scaleX scaleY x y ch)
   = boxAverage data width (nat \<lfloor>of_nat x * scaleX\<rfloor>) (nat \<lfloor>(of_nat x + 1) * scaleX\<rfloor>)
       (nat \<lfloor>of_nat y * scaleY\<rfloor>) (nat \<lfloor>(of_nat y + 1) * scaleY\<rfloor>) ch"
proof -
  let ?c = "cellChannel data width (nat \<lfloor>of_nat x * scaleX\<rfloor>) (nat \<lfloor>(of_nat x + 1) * scaleX\<rfloor>)
       (nat \<lfloor>of_nat y * scaleY\<rfloor>) (nat \<lfloor>(of_nat y + 1) * scaleY\<rfloor>) ch"
  have "?c = [] \<longleftrightarrow> length ?c = 0" by simp
  then show ?thesis
    unfolding cellValue_def boxAverage_def Let_def length_cellChannel
    by (simp add: toUint8Clamped_def length_cellChannel [symmetric] del: length_0_conv)
qed

lemma length_downscale:
  "length (downscale data width scaledWidth scaledHeight scaleX scaleY)
   = scaledWidth * scaledHeight * 4"
  using rasterFill_props [of scaledWidth scaledHeight "cellValue data width scaleX scaleY"
      "replicate (scaledWidth * scaledHeight * 4) 0"]
  by (simp add: downscale_rasterFill)

lemma bytes_downscale: "bytes (downscale data width scaledWidth scaledHeight scaleX scaleY)"
  unfolding downscale_rasterFill
  by (rule bytes_rasterFill) (simp add: bytes_def inRange_def)

lemma downscale_boxDownsample:
  "downscale data width scaledWidth scaledHeight
     (of_nat width / of_nat scaledWidth) (of_nat height / of_nat scaledHeight)
   = boxDownsample data width height scaledWidth scaledHeight"
proof (rule nth_equalityI)
  show "length (downscale data width scaledWidth scaledHeight
     (of_nat width / of_nat scaledWidth) (of_nat height / of_nat scaledHeight))
     = length (boxDownsample data width height scaledWidth scaledHeight)"
    by (simp add: length_downscale boxDownsample_def)
next
  fix i
  assume "i < length (downscale data width scaledWidth scaledHeight
     (of_nat width / of_nat scaledWidth) (of_nat height / of_nat scaledHeight))"
  then have i: "i < scaledWidth * scaledHeight * 4" by (simp add: length_downscale)
  then have d: "i div 4 < scaledHeight * scaledWidth" by (simp add: mult.commute)
  from i d rasterFill_props [of scaledWidth scaledHeight
      "cellValue data width (of_nat width / of_nat scaledWidth) (of_nat height / of_nat scaledHeight)"
      "replicate (scaledWidth * scaledHeight * 4) 0"]
  show "downscale data width scaledWidth scaledHeight
     (of_nat width / of_nat scaledWidth) (of_nat height / of_nat scaledHeight) ! i
     = boxDownsample data width height scaledWidth scaledHeight ! i"
    by (simp add: downscale_rasterFill boxDownsample_def toUint8Clamped_cellValue Let_def)
qed

lemma upscale_rasterFill:
  "upscale data scaledData width height scaledWidth scaleX scaleY
   = rasterFill width height
       (\<lambda>x y ch. of_int (scaledData !
          ((nat \<lfloor>of_nat y / scaleY\<rfloor> * scaledWidth + nat \<lfloor>of_nat x / scaleX\<rfloor>) * 4 + ch)))
       data"
  unfolding upscale_def rasterFill_def fillPixel_def
  by (simp add: Let_def)

lemma length_upscale:
  "length (upscale data scaledData width height scaledWidth scaleX scaleY) = length data"
  using rasterFill_props [of width height _ data] by (simp add: upscale_rasterFill)

lemma source_index_bound:
  assumes "x < w" "0 < sw"
  shows "nat \<lfloor>of_nat x / (of_nat w / of_nat sw :: real)\<rfloor> < sw"
proof -
  have w: "0 < (of_nat w :: real)" using assms(1) by simp
  have "of_nat x / (of_nat w / of_nat sw :: real) = of_nat x * of_nat sw / of_nat w" by simp
  also have "\<dots> < of_nat sw"
    using assms w by (simp add: pos_divide_less_eq mult.commute)
  finally have "\<lfloor>of_nat x / (of_nat w / of_nat sw :: real)\<rfloor> < int sw"
    by (simp add: floor_less_iff)
  then show ?thesis using assms(2) by simp
qed

lemma upscale_pixel:
  assumes len: "i < length data" and sd: "length scaledData = scaledWidth * scaledHeight * 4"
    "bytes scaledData" and pos: "0 < scaledWidth" "0 < scaledHeight"
    and i: "i < width * height * 4"
  shows "\<exists>j < scaledWidth * scaledHeight * 4. j mod 4 = i mod 4
           \<and> upscale data scaledData width height scaledWidth
                (of_nat width / of_nat scaledWidth) (of_nat height / of_nat scaledHeight) ! i
             = scaledData ! j
           \<and> j = (nat \<lfloor>of_nat ((i div 4) div width) / (of_nat height / of_nat scaledHeight :: real)\<rfloor>
                    * scaledWidth
                  + nat \<lfloor>of_nat ((i div 4) mod width) / (of_nat width / of_nat scaledWidth :: real)\<rfloor>) * 4
                 + i mod 4"
proof -
  let ?x = "(i div 4) mod width" and ?y = "(i div 4) div width"
  let ?srcX = "nat \<lfloor>of_nat ?x / (of_nat width / of_nat scaledWidth :: real)\<rfloor>"
  let ?srcY = "nat \<lfloor>of_nat ?y / (of_nat height / of_nat scaledHeight :: real)\<rfloor>"
  let ?j = "(?srcY * scaledWidth + ?srcX) * 4 + i mod 4"
  from i have d: "i div 4 < height * width" by (simp add: mult.commute)
  then have w: "0 < width" by (cases width) auto
  have x: "?x < width" using w by simp
  have y: "?y < height" using d w by (simp add: less_mult_imp_div_less)
  have sx: "?srcX < scaledWidth" using x pos(1) by (rule source_index_bound)
  have sy: "?srcY < scaledHeight" using y pos(2) by (rule source_index_bound)
  have "?srcY * scaledWidth + ?srcX < (?srcY + 1) * scaledWidth" using sx by simp
  also have "\<dots> \<le> scaledHeight * scaledWidth" using sy by (intro mult_le_mono1) simp
  finally have p: "?srcY * scaledWidth + ?srcX < scaledWidth * scaledHeight"
    by (simp add: mult.commute)
  have m: "i mod 4 < 4" by simp
  have "a * 4 + k < n * 4" if "a < n" "k < 4" for a k n :: nat
    using that by simp
  from this [OF p m] have j: "?j < scaledWidth * scaledHeight * 4" .
  have "(a * 4 + k mod 4) mod 4 = k mod 4" for a k :: nat
    by presburger
  then have jm: "?j mod 4 = i mod 4" .
  from j sd have "inRange (scaledData ! ?j)" by (simp add: bytes_def)
  then have c: "toUint8Clamped (of_int (scaledData ! ?j)) = scaledData ! ?j"
    by (rule toUint8Clamped_of_int)
  from i len d rasterFill_props [of width height _ data]
  have "upscale data scaledData width height scaledWidth
                (of_nat width / of_nat scaledWidth) (of_nat height / of_nat scaledHeight) ! i
        = toUint8Clamped (of_int (scaledData ! ?j))"
    by (simp add: upscale_rasterFill)
  with c j jm show ?thesis by (intro exI [of _ ?j]) simp
qed


subsection \<open>The direct bodies\<close>

lemma directBody_run:
  assumes "length data = width * height * 4"
  shows "\<exists>ps. set ps = {p. p < width * height}
           \<and> quantRun palette ps (data, colorCache)
                (directBody kind colorCache data width height palette intensity)"
proof (cases kind)
  case Bayer
  have "(length data + 3) div 4 = width * height" using assms by simp
  then have "set [0..<(length data + 3) div 4] = {p. p < width * height}" by auto
  with bayerDirect_run [of palette data colorCache width height intensity] Bayer
  show ?thesis unfolding directBody_def by (intro exI [of _ "[0..<(length data + 3) div 4]"]) simp
next
  case FloydSteinberg
  with floydSteinbergDirect_run [of palette width height data colorCache intensity]
    set_rasterPixels [of width height]
  show ?thesis unfolding directBody_def by (intro exI [of _ "rasterPixels width height"]) simp
next
  case JJN
  with jjnDirect_run [of palette width height data colorCache intensity]
    set_rasterPixels [of width height]
  show ?thesis unfolding directBody_def by (intro exI [of _ "rasterPixels width height"]) simp
next
  case Stucki
  with stuckiDirect_run [of palette width height data colorCache intensity]
    set_rasterPixels [of width height]
  show ?thesis unfolding directBody_def by (intro exI [of _ "rasterPixels width height"]) simp
next
  case Sierra
  with sierraDirect_run [of palette width height data colorCache intensity]
    set_rasterPixels [of width height]
  show ?thesis unfolding directBody_def by (intro exI [of _ "rasterPixels width height"]) simp
qed

lemma directBody_post:
  assumes "wellFormedFrame data width height" "palette \<noteq> []" "validPalette palette"
    "cacheWithin palette colorCache"
  shows "ditherPost palette width height data True
           (directBody kind colorCache data width height palette intensity)"
proof -
  from assms(1) have "length data = width * height * 4" by (simp add: wellFormedFrame_def)
  from directBody_run [OF this, of palette colorCache kind intensity] obtain ps
    where "set ps = {p. p < width * height}"
      "quantRun palette ps (data, colorCache)
         (directBody kind colorCache data width height palette intensity)" by blast
  then show ?thesis using assms by (intro quantRun_post [where ps = ps and c = colorCache])
qed

lemma lowRes_directBody:
  "applyDitheringAtLowerResolution colorCache data width height palette intensity resolution kind
   = (let scaledWidth = nat (max 2 \<lfloor>of_nat width * resolution\<rfloor>);
          scaledHeight = nat (max 2 \<lfloor>of_nat height * resolution\<rfloor>);
          scaleX = of_nat width / of_nat scaledWidth;
          scaleY = of_nat height / of_nat scaledHeight
      in map_option
           (\<lambda>r. (upscale data (fst r) width height scaledWidth scaleX scaleY, snd r))
           (directBody kind colorCache
              (downscale data width scaledWidth scaledHeight scaleX scaleY)
              scaledWidth scaledHeight palette intensity))"
  unfolding applyDitheringAtLowerResolution_def directBody_def Let_def
  by (simp add: map_option_case split: option.splits prod.splits)

lemma applyDithering_cases:
  "applyDithering kind colorCache data width height palette intensity resolution
   = (if resolution < 1
      then applyDitheringAtLowerResolution colorCache data width height palette intensity
             resolution kind
      else directBody kind colorCache data width height palette intensity)"
  by (cases kind)
    (simp_all add: applyDithering_def directBody_def applyBayerDithering_def
      applyFloydSteinbergDithering_def applyJJNDithering_def applyStuckiDithering_def
      applySierraDithering_def)

lemma lowRes_post:
  assumes wf: "wellFormedFrame data width height" and pal: "palette \<noteq> []" "validPalette palette"
    and cache: "cacheWithin palette colorCache"
  shows "ditherPost palette width height data False
           (applyDitheringAtLowerResolution colorCache data width height palette intensity
              resolution kind)"
proof -
  define sw where "sw = nat (max 2 \<lfloor>of_nat width * resolution\<rfloor>)"
  define sh where "sh = nat (max 2 \<lfloor>of_nat height * resolution\<rfloor>)"
  define scaled where
    "scaled = downscale data width sw sh (of_nat width / of_nat sw) (of_nat height / of_nat sh)"
  have pos: "0 < sw" "0 < sh" by (simp_all add: sw_def sh_def)
  have wfs: "wellFormedFrame scaled sw sh"
    by (simp add: wellFormedFrame_def scaled_def length_downscale bytes_downscale)
  from directBody_post [OF wfs pal cache, of kind intensity] obtain sd c'
    where r: "directBody kind colorCache scaled sw sh palette intensity = Some (sd, c')"
      and len: "length sd = sw * sh * 4" and b: "bytes sd"
      and rgb: "\<forall>p < sw * sh. pixelRGB sd p \<in> set palette" and c': "cacheWithin palette c'"
    using wfs by (auto simp: ditherPost_def wellFormedFrame_def)
  define out where
    "out = upscale data sd width height sw (of_nat width / of_nat sw) (of_nat height / of_nat sh)"
  have res: "applyDitheringAtLowerResolution colorCache data width height palette intensity
              resolution kind = Some (out, c')"
    unfolding lowRes_directBody Let_def
    using r by (simp add: sw_def [symmetric] sh_def [symmetric] scaled_def [symmetric] out_def)
  have dlen: "length data = width * height * 4" and db: "bytes data"
    using wf by (simp_all add: wellFormedFrame_def)
  have olen: "length out = length data" by (simp add: out_def length_upscale)
  have ob: "bytes out"
    unfolding out_def upscale_rasterFill using db by (rule bytes_rasterFill)
  have "pixelRGB out p \<in> set palette" if p: "p < width * height" for p
  proof -
    define q where "q = nat \<lfloor>of_nat (p div width) / (of_nat height / of_nat sh :: real)\<rfloor> * sw
                  + nat \<lfloor>of_nat (p mod width) / (of_nat width / of_nat sw :: real)\<rfloor>"
    have ch: "out ! (p * 4 + k) = sd ! (q * 4 + k) \<and> q * 4 + k < sw * sh * 4" if "k < 4" for k
    proof -
      have i: "p * 4 + k < width * height * 4" using p that by simp
      have d: "(p * 4 + k) div 4 = p" "(p * 4 + k) mod 4 = k" using that by simp_all
      from upscale_pixel [of "p * 4 + k" data sd sw sh width height] i len b pos dlen
      show ?thesis unfolding out_def d q_def by auto
    qed
    from ch [of 0] ch [of 1] ch [of 2] have e: "pixelRGB out p = pixelRGB sd q" "q * 4 < sw * sh * 4"
      by (simp_all add: pixelRGB_def)
    then have "q < sw * sh" by simp
    with rgb e show ?thesis by simp
  qed
  with res olen ob c' show ?thesis by (simp add: ditherPost_def)
qed

lemma applyDithering_post:
  assumes "wellFormedFrame data width height" "palette \<noteq> []" "validPalette palette"
    "cacheWithin palette colorCache"
  shows "ditherPost palette width height data (1 \<le> resolution)
           (applyDithering kind colorCache data width height palette intensity resolution)"
proof (cases "resolution < 1")
  case True
  with lowRes_post [OF assms, of intensity resolution kind] show ?thesis
    by (simp add: applyDithering_cases)
next
  case False
  with directBody_post [OF assms, of kind intensity] show ?thesis
    by (simp add: applyDithering_cases)
qed

lemma bytes_iff: "bytes data \<longleftrightarrow> (\<forall>v \<in> set data. inRange v)"
  by (simp add: bytes_def all_set_conv_all_nth)



subsection \<open>The resolution-scaled path\<close>

lemma quantStep_shape:
  assumes "quantStep palette p s (Some s')"
  shows "length (fst s') = length (fst s) \<and> (bytes (fst s) \<longrightarrow> bytes (fst s'))"
proof -
  from assms obtain r g b where res: "Some s' =
        (case findNearestColor (snd s) r g b palette of
           (None, colorCache') \<Rightarrow> None
         | (Some q, colorCache') \<Rightarrow>
             Some (store (store (store (fst s) (p * 4) (of_int (fst q)))
                           (p * 4 + 1) (of_int (fst (snd q))))
                     (p * 4 + 2) (of_int (snd (snd q))),
                   colorCache'))"
    unfolding quantStep_def by blast
  obtain v c1 where f: "findNearestColor (snd s) r g b palette = (v, c1)"
    by (cases "findNearestColor (snd s) r g b palette") auto
  with res show ?thesis by (cases v) (auto simp: bytes_store)
qed

lemma quantRun_shape:
  assumes "quantRun palette ps s result" "result = Some s'"
  shows "length (fst s') = length (fst s) \<and> (bytes (fst s) \<longrightarrow> bytes (fst s'))"
  using assms
proof (induction rule: quantRun.induct)
  case (finished palette s)
  then show ?case by simp
next
  case (failed palette p s ps)
  then show ?case by simp
next
  case (stepped palette p s s1 ps result)
  from quantStep_shape [OF stepped.hyps(1)] stepped.IH [OF stepped.prems]
  show ?case by simp
qed

lemma directBody_run_any:
  "\<exists>ps. quantRun palette ps (data, colorCache)
          (directBody kind colorCache data width height palette intensity)"
proof (cases kind)
  case Bayer
  with bayerDirect_run [of palette data colorCache width height intensity]
  show ?thesis unfolding directBody_def by auto
next
  case FloydSteinberg
  with floydSteinbergDirect_run [of palette width height data colorCache intensity]
  show ?thesis unfolding directBody_def by auto
next
  case JJN
  with jjnDirect_run [of palette width height data colorCache intensity]
  show ?thesis unfolding directBody_def by auto
next
  case Stucki
  with stuckiDirect_run [of palette width height data colorCache intensity]
  show ?thesis unfolding directBody_def by auto
next
  case Sierra
  with sierraDirect_run [of palette width height data colorCache intensity]
  show ?thesis unfolding directBody_def by auto
qed

lemma directBody_shape:
  assumes "directBody kind colorCache data width height palette intensity = Some (data', c')"
  shows "length data' = length data \<and> (bytes data \<longrightarrow> bytes data') \<and> cacheKept colorCache c'"
proof -
  from directBody_run_any [of palette data colorCache kind width height intensity] obtain ps
    where run: "quantRun palette ps (data, colorCache)
          (directBody kind colorCache data width height palette intensity)" by blast
  from quantRun_shape [OF run assms] quantRun_cacheKept [OF run [unfolded assms]]
  show ?thesis by simp
qed

lemma nearestUpsample_length [simp]:
  "length (nearestUpsample data scaledData width height scaledWidth scaledHeight) = length data"
  by (simp add: nearestUpsample_def)

lemma upscale_nearestUpsample:
  assumes sd: "length scaledData = scaledWidth * scaledHeight * 4" "bytes scaledData"
    and pos: "0 < scaledWidth" "0 < scaledHeight"
  shows "upscale data scaledData width height scaledWidth
           (of_nat width / of_nat scaledWidth) (of_nat height / of_nat scaledHeight)
         = nearestUpsample data scaledData width height scaledWidth scaledHeight"
proof (rule nth_equalityI)
  show "length (upscale data scaledData width height scaledWidth
           (of_nat width / of_nat scaledWidth) (of_nat height / of_nat scaledHeight))
        = length (nearestUpsample data scaledData width height scaledWidth scaledHeight)"
    by (simp add: length_upscale)
next
  fix i
  assume "i < length (upscale data scaledData width height scaledWidth
           (of_nat width / of_nat scaledWidth) (of_nat height / of_nat scaledHeight))"
  then have i: "i < length data" by (simp add: length_upscale)
  show "upscale data scaledData width height scaledWidth
           (of_nat width / of_nat scaledWidth) (of_nat height / of_nat scaledHeight) ! i
        = nearestUpsample data scaledData width height scaledWidth scaledHeight ! i"
  proof (cases "i < width * height * 4")
    case True
    from upscale_pixel [OF i sd pos True] i True show ?thesis
      by (auto simp: nearestUpsample_def Let_def)
  next
    case False
    then have "\<not> i div 4 < height * width" by (simp add: mult.commute)
    with rasterFill_props [of width height _ data] i False show ?thesis
      by (simp add: upscale_rasterFill nearestUpsample_def)
  qed
qed

lemma applyDithering_at_1:
  "applyDithering kind colorCache data width height palette intensity 1
   = directBody kind colorCache data width height palette intensity"
  by (simp add: applyDithering_cases)

lemma scaled_path:
  assumes "resolution < 1"
  shows "applyDithering kind colorCache data width height palette intensity resolution
         = (let scaledWidth = nat (max 2 \<lfloor>of_nat width * resolution\<rfloor>);
                scaledHeight = nat (max 2 \<lfloor>of_nat height * resolution\<rfloor>)
            in map_option
                 (\<lambda>r. (nearestUpsample data (fst r) width height scaledWidth scaledHeight, snd r))
                 (applyDithering kind colorCache
                    (boxDownsample data width height scaledWidth scaledHeight)
                    scaledWidth scaledHeight palette intensity 1))"
proof -
  define sw where "sw = nat (max 2 \<lfloor>of_nat width * resolution\<rfloor>)"
  define sh where "sh = nat (max 2 \<lfloor>of_nat height * resolution\<rfloor>)"
  define scaled where "scaled = boxDownsample data width height sw sh"
  have pos: "0 < sw" "0 < sh" by (simp_all add: sw_def sh_def)
  have scaled: "downscale data width sw sh (of_nat width / of_nat sw) (of_nat height / of_nat sh)
                = scaled"
    by (simp add: scaled_def downscale_boxDownsample)
  have ls: "length scaled = sw * sh * 4" "bytes scaled"
    using length_downscale [of data width sw sh] bytes_downscale [of data width sw sh]
    by (simp_all add: scaled [symmetric])
  have lhs: "applyDithering kind colorCache data width height palette intensity resolution
        = map_option
            (\<lambda>r. (upscale data (fst r) width height sw
                     (of_nat width / of_nat sw) (of_nat height / of_nat sh), snd r))
            (directBody kind colorCache scaled sw sh palette intensity)"
    using assms
    by (simp add: applyDithering_cases lowRes_directBody Let_def sw_def [symmetric]
        sh_def [symmetric] scaled)
  have "map_option
            (\<lambda>r. (upscale data (fst r) width height sw
                     (of_nat width / of_nat sw) (of_nat height / of_nat sh), snd r))
            (directBody kind colorCache scaled sw sh palette intensity)
        = map_option (\<lambda>r. (nearestUpsample data (fst r) width height sw sh, snd r))
            (directBody kind colorCache scaled sw sh palette intensity)"
  proof (cases "directBody kind colorCache scaled sw sh palette intensity")
    case None
    then show ?thesis by simp
  next
    case (Some r)
    from directBody_shape [of kind colorCache scaled sw sh palette intensity "fst r" "snd r"] Some ls
    have "length (fst r) = sw * sh * 4" "bytes (fst r)" by simp_all
    from upscale_nearestUpsample [OF this pos, of data width height] Some
    show ?thesis by simp
  qed
  with lhs show ?thesis
    by (simp add: Let_def sw_def [symmetric] sh_def [symmetric] scaled_def [symmetric]
        applyDithering_at_1)
qed

text \<open>
  C3: below resolution 1 each entry point works on a buffer of
  \<open>max(2, floor(width * resolution))\<close> by \<open>max(2, floor(height * resolution))\<close> pixels
  obtained by box averaging, runs the requested algorithm on it with the resolution 1 and
  the intensity it was given, and copies the result back by nearest neighbour. With the
  intensity 1 this is the path the specification words.
\<close>

theorem C3_scaled_path:
  assumes "resolution < 1"
  shows "applyDithering kind colorCache data width height palette intensity resolution
         = (let scaledWidth = nat (max 2 \<lfloor>of_nat width * resolution\<rfloor>);
                scaledHeight = nat (max 2 \<lfloor>of_nat height * resolution\<rfloor>)
            in map_option
                 (\<lambda>r. (nearestUpsample data (fst r) width height scaledWidth scaledHeight, snd r))
                 (applyDithering kind colorCache
                    (boxDownsample data width height scaledWidth scaledHeight)
                    scaledWidth scaledHeight palette intensity 1))
       \<and> (intensity = 1 \<longrightarrow>
            applyDithering kind colorCache data width height palette intensity resolution
            = scaledPathAsSpecified kind colorCache data width height palette resolution)"
proof (intro conjI impI)
  show "applyDithering kind colorCache data width height palette intensity resolution
         = (let scaledWidth = nat (max 2 \<lfloor>of_nat width * resolution\<rfloor>);
                scaledHeight = nat (max 2 \<lfloor>of_nat height * resolution\<rfloor>)
            in map_option
                 (\<lambda>r. (nearestUpsample data (fst r) width height scaledWidth scaledHeight, snd r))
                 (applyDithering kind colorCache
                    (boxDownsample data width height scaledWidth scaledHeight)
                    scaledWidth scaledHeight palette intensity 1))"
    using assms by (rule scaled_path)
next
  assume "intensity = 1"
  then show "applyDithering kind colorCache data width height palette intensity resolution
            = scaledPathAsSpecified kind colorCache data width height palette resolution"
    unfolding scaledPathAsSpecified_def
    using scaled_path [OF assms, of kind colorCache data width height palette 1] by simp
qed

theorem C3_scaled_path_witness:
  "applyDithering FloydSteinberg [] frame4x2 4 2 blackWhite 1 (1 / 2)
   = scaledPathAsSpecified FloydSteinberg [] frame4x2 4 2 blackWhite (1 / 2)
   \<and> applyDithering Bayer [] grey2x2 2 2 blackWhite 0 (1 / 2)
     = map_option (\<lambda>r. (nearestUpsample grey2x2 (fst r) 2 2 2 2, snd r))
         (applyDithering Bayer [] (boxDownsample grey2x2 2 2 2 2) 2 2 blackWhite 0 1)"
proof -
  have r: "(1 / 2 :: real) < 1" by simp
  have s: "nat (max 2 \<lfloor>of_nat 2 * (1 / 2 :: real)\<rfloor>) = 2" by simp
  from C3_scaled_path [OF r, of FloydSteinberg "[]" frame4x2 4 2 blackWhite 1]
  have a: "applyDithering FloydSteinberg [] frame4x2 4 2 blackWhite 1 (1 / 2)
           = scaledPathAsSpecified FloydSteinberg [] frame4x2 4 2 blackWhite (1 / 2)"
    by blast
  from C3_scaled_path [OF r, of Bayer "[]" grey2x2 2 2 blackWhite 0]
  have b: "applyDithering Bayer [] grey2x2 2 2 blackWhite 0 (1 / 2)
     = map_option (\<lambda>r. (nearestUpsample grey2x2 (fst r) 2 2 2 2, snd r))
         (applyDithering Bayer [] (boxDownsample grey2x2 2 2 2 2) 2 2 blackWhite 0 1)"
    unfolding Let_def s by blast
  from a b show ?thesis by (rule conjI)
qed

text \<open>
  The small buffer is not dithered at full intensity: the caller's intensity is passed
  on. With intensity 0 the mid-grey frame comes back all white, where the path that the
  specification words gives a Bayer pattern of black and white.
\<close>

theorem C3_intensity_counterexample:
  "applyDithering Bayer [] grey2x2 2 2 blackWhite 0 (1 / 2)
   \<noteq> scaledPathAsSpecified Bayer [] grey2x2 2 2 blackWhite (1 / 2)"
  by code_simp


subsection \<open>The cache across palettes\<close>

lemma applyDithering_cacheKept:
  assumes "applyDithering kind colorCache data width height palette intensity resolution
           = Some (data', colorCache')"
  shows "cacheKept colorCache colorCache'"
proof (cases "resolution < 1")
  case True
  define sw where "sw = nat (max 2 \<lfloor>of_nat width * resolution\<rfloor>)"
  define sh where "sh = nat (max 2 \<lfloor>of_nat height * resolution\<rfloor>)"
  define scaled where
    "scaled = downscale data width sw sh (of_nat width / of_nat sw) (of_nat height / of_nat sh)"
  from assms True
  have "map_option
          (\<lambda>r. (upscale data (fst r) width height sw (of_nat width / of_nat sw)
                   (of_nat height / of_nat sh), snd r))
          (directBody kind colorCache scaled sw sh palette intensity) = Some (data', colorCache')"
    unfolding applyDithering_cases lowRes_directBody Let_def sw_def sh_def scaled_def by simp
  then obtain sd where "directBody kind colorCache scaled sw sh palette intensity
                        = Some (sd, colorCache')"
    by auto
  then show ?thesis using directBody_shape by blast
next
  case False
  with assms directBody_shape [of kind colorCache data width height palette intensity data'
      colorCache']
  show ?thesis by (simp add: applyDithering_cases)
qed

lemma stale_bayer:
  "applyDithering Bayer [] darkPixel 1 1 [(0, 0, 0)] 1 1
     = Some ([0, 0, 0, 255], [(0, Some (0, 0, 0))])
   \<and> applyDithering Bayer [(0, Some (0, 0, 0))] darkPixel 1 1 [(255, 255, 255)] 1 1
     = Some ([0, 0, 0, 255], [(0, Some (0, 0, 0))])"
  by code_simp

lemma stale_floydSteinberg:
  "applyDithering FloydSteinberg [] darkPixel 1 1 [(0, 0, 0)] 1 1
     = Some ([0, 0, 0, 255], [(657930, Some (0, 0, 0))])
   \<and> applyDithering FloydSteinberg [(657930, Some (0, 0, 0))] darkPixel 1 1 [(255, 255, 255)] 1 1
     = Some ([0, 0, 0, 255], [(657930, Some (0, 0, 0))])"
  by code_simp

lemma stale_jjn:
  "applyDithering JJN [] darkPixel 1 1 [(0, 0, 0)] 1 1
     = Some ([0, 0, 0, 255], [(657930, Some (0, 0, 0))])
   \<and> applyDithering JJN [(657930, Some (0, 0, 0))] darkPixel 1 1 [(255, 255, 255)] 1 1
     = Some ([0, 0, 0, 255], [(657930, Some (0, 0, 0))])"
  by code_simp

lemma stale_stucki:
  "applyDithering Stucki [] darkPixel 1 1 [(0, 0, 0)] 1 1
     = Some ([0, 0, 0, 255], [(657930, Some (0, 0, 0))])
   \<and> applyDithering Stucki [(657930, Some (0, 0, 0))] darkPixel 1 1 [(255, 255, 255)] 1 1
     = Some ([0, 0, 0, 255], [(657930, Some (0, 0, 0))])"
  by code_simp

lemma stale_sierra:
  "applyDithering Sierra [] darkPixel 1 1 [(0, 0, 0)] 1 1
     = Some ([0, 0, 0, 255], [(657930, Some (0, 0, 0))])
   \<and> applyDithering Sierra [(657930, Some (0, 0, 0))] darkPixel 1 1 [(255, 255, 255)] 1 1
     = Some ([0, 0, 0, 255], [(657930, Some (0, 0, 0))])"
  by code_simp

lemma stale_any_kind:
  "\<exists>cacheA. applyDithering kind [] darkPixel 1 1 [(0, 0, 0)] 1 1 = Some ([0, 0, 0, 255], cacheA)
     \<and> applyDithering kind cacheA darkPixel 1 1 [(255, 255, 255)] 1 1
         = Some ([0, 0, 0, 255], cacheA)"
proof (cases kind)
  case Bayer
  with stale_bayer show ?thesis by blast
next
  case FloydSteinberg
  with stale_floydSteinberg show ?thesis by blast
next
  case JJN
  with stale_jjn show ?thesis by blast
next
  case Stucki
  with stale_stucki show ?thesis by blast
next
  case Sierra
  with stale_sierra show ?thesis by blast
qed

text \<open>
  C5: the cache key is the packed colour alone, so a cached entry is returned whatever
  the palette of the call; the dithering entry points never empty the cache (it does not
  shrink and, below its capacity, keeps every entry it had), while
  \<open>reduceColorsTopalette\<close> starts from an empty cache whatever it is given. So for each
  of the five entry points, dithering the pixel \<open>(10, 10, 10)\<close> under the palette
  \<open>[(0, 0, 0)]\<close> and then under the palette \<open>[(255, 255, 255)]\<close> returns the colour
  \<open>(0, 0, 0)\<close> the second time, which is not in the second palette.
\<close>

theorem C5_cache_ignores_palette:
  "colorKey r g b = (push_bit 16 r OR push_bit 8 g OR b)
   \<and> (map_of colorCache (colorKey r g b) = Some v
        \<longrightarrow> findNearestColor colorCache r g b palette = (v, colorCache))
   \<and> (applyDithering kind colorCache data width height palette intensity resolution
          = Some (data', colorCache')
        \<longrightarrow> cacheKept colorCache colorCache')
   \<and> reduceColorsTopalette colorCache data palette = reduceColorsTopalette [] data palette
   \<and> (\<exists>cacheA.
          applyDithering kind [] darkPixel 1 1 [(0, 0, 0)] 1 1 = Some ([0, 0, 0, 255], cacheA)
          \<and> applyDithering kind cacheA darkPixel 1 1 [(255, 255, 255)] 1 1
              = Some ([0, 0, 0, 255], cacheA)
          \<and> pixelRGB [0, 0, 0, 255] 0 \<notin> set [(255, 255, 255) :: rgb])"
proof -
  have key: "colorKey r g b = (push_bit 16 r OR push_bit 8 g OR b)"
    by (simp add: colorKey_def)
  have hit: "map_of colorCache (colorKey r g b) = Some v
        \<longrightarrow> findNearestColor colorCache r g b palette = (v, colorCache)"
    by (simp add: findNearestColor_hit)
  have kept: "applyDithering kind colorCache data width height palette intensity resolution
          = Some (data', colorCache')
        \<longrightarrow> cacheKept colorCache colorCache'"
    using applyDithering_cacheKept by blast
  have cleared: "reduceColorsTopalette colorCache data palette
                 = reduceColorsTopalette [] data palette"
    by (simp add: reduceColorsTopalette_def)
  have "pixelRGB [0, 0, 0, 255] 0 \<notin> set [(255, 255, 255) :: rgb]"
    by (simp add: pixelRGB_def)
  with stale_any_kind [of kind] have stale: "\<exists>cacheA.
          applyDithering kind [] darkPixel 1 1 [(0, 0, 0)] 1 1 = Some ([0, 0, 0, 255], cacheA)
          \<and> applyDithering kind cacheA darkPixel 1 1 [(255, 255, 255)] 1 1
              = Some ([0, 0, 0, 255], cacheA)
          \<and> pixelRGB [0, 0, 0, 255] 0 \<notin> set [(255, 255, 255) :: rgb]"
    by blast
  from key hit kept cleared stale show ?thesis by blast
qed

lemma reduce_after_stale:
  "reduceColorsTopalette [(657930, Some (0, 0, 0))] darkPixel [(255, 255, 255)]
     = Some ([255, 255, 255, 255], [(657930, Some (255, 255, 255))])"
  by code_simp

theorem C5_cache_ignores_palette_witness:
  "findNearestColor [(657930, Some (0, 0, 0))] 10 10 10 [(255, 255, 255)]
     = (Some (0, 0, 0), [(657930, Some (0, 0, 0))])
   \<and> cacheKept [] [(657930, Some (0, 0, 0))]
   \<and> reduceColorsTopalette [] darkPixel [(255, 255, 255)]
     = Some ([255, 255, 255, 255], [(657930, Some (255, 255, 255))])"
proof -
  have k: "colorKey 10 10 10 = 657930" by code_simp
  have m: "map_of [(657930 :: int, Some (0 :: int, 0 :: int, 0 :: int))] (colorKey 10 10 10)
           = Some (Some (0, 0, 0))"
    by (simp add: k)
  have d: "applyDithering FloydSteinberg [] darkPixel 1 1 [(0, 0, 0)] 1 1
           = Some ([0, 0, 0, 255], [(657930, Some (0, 0, 0))])"
    using stale_floydSteinberg by blast
  note c = C5_cache_ignores_palette [of 10 10 10 "[(657930, Some (0, 0, 0))]" "Some (0, 0, 0)"
      "[(255, 255, 255)]" FloydSteinberg darkPixel 1 1 1 1 "[0, 0, 0, 255]"
      "[(657930, Some (0, 0, 0))]"]
  note c' = C5_cache_ignores_palette [of 10 10 10 "[]" "Some (0, 0, 0)"
      "[(0, 0, 0)]" FloydSteinberg darkPixel 1 1 1 1 "[0, 0, 0, 255]"
      "[(657930, Some (0, 0, 0))]"]
  from c m have a1: "findNearestColor [(657930, Some (0, 0, 0))] 10 10 10 [(255, 255, 255)]
     = (Some (0, 0, 0), [(657930, Some (0, 0, 0))])" by blast
  from c' d have a2: "cacheKept [] [(657930, Some (0, 0, 0))]" by blast
  from c reduce_after_stale have a3: "reduceColorsTopalette [] darkPixel [(255, 255, 255)]
     = Some ([255, 255, 255, 255], [(657930, Some (255, 255, 255))])" by simp
  from a1 a2 a3 show ?thesis by blast
qed


subsection \<open>The output of the five entry points\<close>

lemma findNearestColor_defined:
  assumes "palette \<noteq> []" "cacheDefined c"
  shows "\<exists>q c'. findNearestColor c r g b palette = (Some q, c') \<and> cacheDefined c'"
proof (cases "map_of c (colorKey r g b)")
  case (Some v)
  then have "(colorKey r g b, v) \<in> set c" by (rule map_of_SomeD)
  then have "v \<in> snd ` set c" by force
  with assms(2) have "v \<noteq> None" unfolding cacheDefined_def by metis
  then obtain q where "v = Some q" by blast
  with findNearestColor_hit [OF Some, of palette] assms(2) show ?thesis by blast
next
  case None
  from nearestByScan_first [OF assms(1), of r g b] obtain p
    where p: "nearestByScan r g b palette = Some p" by blast
  have "snd ` set (evictOldest c) \<subseteq> snd ` set c"
    using set_evictOldest [of c] by blast
  then have "cacheDefined (evictOldest c @ [(colorKey r g b, Some p)])"
    using assms(2) unfolding cacheDefined_def by auto
  with findNearestColor_miss [OF None, of palette] p show ?thesis by metis
qed

lemma frameRel_stored:
  assumes rel: "frameRel palette {} data0 d"
  shows "frameRel palette {} data0
           (store (store (store d (p * 4) a) (p * 4 + 1) b) (p * 4 + 2) c)"
    (is "frameRel _ _ _ ?d'")
proof -
  have len: "length ?d' = length data0" using rel by (simp add: frameRel_def)
  have byt: "bytes ?d'" using rel by (simp add: frameRel_def bytes_store)
  have alpha: "pixelAlpha ?d' k = pixelAlpha data0 k" if "k * 4 + 3 < length ?d'" for k
  proof -
    have "k * 4 + 3 \<noteq> p * 4" "k * 4 + 3 \<noteq> p * 4 + 1" "k * 4 + 3 \<noteq> p * 4 + 2" by presburger+
    then have "?d' ! (k * 4 + 3) = d ! (k * 4 + 3)"
      using that by (simp add: nth_store)
    moreover have "pixelAlpha d k = pixelAlpha data0 k"
      using rel that by (simp add: frameRel_def)
    ultimately show ?thesis by (simp add: pixelAlpha_def)
  qed
  show ?thesis
    unfolding frameRel_def using len byt alpha by blast
qed

lemma quantStep_returns:
  assumes "quantStep palette p s result" "palette \<noteq> []"
    "frameRel palette {} data0 (fst s)" "cacheDefined (snd s)"
  shows "\<exists>d' c'. result = Some (d', c') \<and> frameRel palette {} data0 d' \<and> cacheDefined c'"
proof -
  from assms(1) obtain r g b where res: "result =
        (case findNearestColor (snd s) r g b palette of
           (None, colorCache') \<Rightarrow> None
         | (Some q, colorCache') \<Rightarrow>
             Some (store (store (store (fst s) (p * 4) (of_int (fst q)))
                           (p * 4 + 1) (of_int (fst (snd q))))
                     (p * 4 + 2) (of_int (snd (snd q))),
                   colorCache'))"
    unfolding quantStep_def by blast
  from findNearestColor_defined [OF assms(2) assms(4), of r g b] obtain q c'
    where f: "findNearestColor (snd s) r g b palette = (Some q, c')" "cacheDefined c'" by blast
  from frameRel_stored [OF assms(3), of p] res f show ?thesis by simp
qed

lemma quantRun_returns:
  assumes "quantRun palette ps s result" "palette \<noteq> []"
    "frameRel palette {} data0 (fst s)" "cacheDefined (snd s)"
  shows "\<exists>d' c'. result = Some (d', c') \<and> frameRel palette {} data0 d' \<and> cacheDefined c'"
  using assms
proof (induction rule: quantRun.induct)
  case (finished palette s)
  then show ?case by (cases s) simp
next
  case (failed palette p s ps)
  from quantStep_returns [of palette p s None data0] failed
  show ?case by simp
next
  case (stepped palette p s s1 ps result)
  from quantStep_returns [of palette p s "Some s1" data0] stepped.hyps(1) stepped.prems
  have "frameRel palette {} data0 (fst s1)" "cacheDefined (snd s1)" by auto
  from stepped.IH [OF stepped.prems(1) this]
  show ?case by simp
qed

lemma directBody_returns:
  assumes "wellFormedFrame data width height" "palette \<noteq> []" "cacheDefined colorCache"
  shows "ditherShape width height data True
           (directBody kind colorCache data width height palette intensity)"
proof -
  have len: "length data = width * height * 4" using assms(1) by (simp add: wellFormedFrame_def)
  from directBody_run_any [of palette data colorCache kind width height intensity] obtain ps
    where run: "quantRun palette ps (data, colorCache)
         (directBody kind colorCache data width height palette intensity)" by blast
  have "frameRel palette {} data data"
    using assms(1) by (simp add: frameRel_def wellFormedFrame_def)
  with quantRun_returns [OF run assms(2), of data] assms(3) obtain d' c'
    where r: "directBody kind colorCache data width height palette intensity = Some (d', c')"
      "frameRel palette {} data d'" "cacheDefined c'"
    by auto
  have "pixelAlpha d' p = pixelAlpha data p" if "p < width * height" for p
  proof -
    from that r(2) len have "p * 4 + 3 < length d'" by (simp add: frameRel_def)
    with r(2) show ?thesis by (simp add: frameRel_def)
  qed
  with r show ?thesis by (simp add: ditherShape_def frameRel_def)
qed

lemma lowRes_returns:
  assumes wf: "wellFormedFrame data width height" and pal: "palette \<noteq> []"
    and cache: "cacheDefined colorCache"
  shows "ditherShape width height data False
           (applyDitheringAtLowerResolution colorCache data width height palette intensity
              resolution kind)"
proof -
  define sw where "sw = nat (max 2 \<lfloor>of_nat width * resolution\<rfloor>)"
  define sh where "sh = nat (max 2 \<lfloor>of_nat height * resolution\<rfloor>)"
  define scaled where
    "scaled = downscale data width sw sh (of_nat width / of_nat sw) (of_nat height / of_nat sh)"
  have wfs: "wellFormedFrame scaled sw sh"
    by (simp add: wellFormedFrame_def scaled_def length_downscale bytes_downscale)
  from directBody_returns [OF wfs pal cache, of kind intensity] obtain sd c'
    where r: "directBody kind colorCache scaled sw sh palette intensity = Some (sd, c')"
      and c': "cacheDefined c'"
    by (auto simp: ditherShape_def)
  define out where
    "out = upscale data sd width height sw (of_nat width / of_nat sw) (of_nat height / of_nat sh)"
  have res: "applyDitheringAtLowerResolution colorCache data width height palette intensity
              resolution kind = Some (out, c')"
    unfolding lowRes_directBody Let_def
    using r by (simp add: sw_def [symmetric] sh_def [symmetric] scaled_def [symmetric] out_def)
  have db: "bytes data" using wf by (simp add: wellFormedFrame_def)
  have olen: "length out = length data" by (simp add: out_def length_upscale)
  have ob: "bytes out"
    unfolding out_def upscale_rasterFill using db by (rule bytes_rasterFill)
  from res olen ob c' show ?thesis by (simp add: ditherShape_def)
qed

lemma applyDithering_returns:
  assumes "wellFormedFrame data width height" "palette \<noteq> []" "cacheDefined colorCache"
  shows "ditherShape width height data (1 \<le> resolution)
           (applyDithering kind colorCache data width height palette intensity resolution)"
proof (cases "resolution < 1")
  case True
  with lowRes_returns [OF assms, of intensity resolution kind] show ?thesis
    by (simp add: applyDithering_cases)
next
  case False
  with directBody_returns [OF assms, of kind intensity] show ?thesis
    by (simp add: applyDithering_cases)
qed

text \<open>
  C1: on a framebuffer of \<open>width * height\<close> pixels and with a non-empty palette, each of
  the five entry points returns, for every intensity and resolution, with every byte in
  \<open>[0,255]\<close> and, at a resolution not below 1, with every alpha byte as in the input
  (whatever the cache holds, short of \<open>undefined\<close>). When the palette has 8-bit colours
  and the cache holds palette colours only (an empty one, for instance), every pixel's
  RGB triple is moreover equal to a palette entry.
\<close>

theorem C1_output_in_palette:
  assumes "wellFormedFrame data width height" "palette \<noteq> []"
  shows "(cacheDefined colorCache \<longrightarrow>
            ditherShape width height data (1 \<le> resolution)
              (applyBayerDithering colorCache data width height palette intensity resolution)
          \<and> ditherShape width height data (1 \<le> resolution)
              (applyFloydSteinbergDithering colorCache data width height palette intensity
                 resolution)
          \<and> ditherShape width height data (1 \<le> resolution)
              (applyJJNDithering colorCache data width height palette intensity resolution)
          \<and> ditherShape width height data (1 \<le> resolution)
              (applyStuckiDithering colorCache data width height palette intensity resolution)
          \<and> ditherShape width height data (1 \<le> resolution)
              (applySierraDithering colorCache data width height palette intensity resolution))
       \<and> (validPalette palette \<and> cacheWithin palette colorCache \<longrightarrow>
            ditherPost palette width height data (1 \<le> resolution)
              (applyBayerDithering colorCache data width height palette intensity resolution)
          \<and> ditherPost palette width height data (1 \<le> resolution)
              (applyFloydSteinbergDithering colorCache data width height palette intensity
                 resolution)
          \<and> ditherPost palette width height data (1 \<le> resolution)
              (applyJJNDithering colorCache data width height palette intensity resolution)
          \<and> ditherPost palette width height data (1 \<le> resolution)
              (applyStuckiDithering colorCache data width height palette intensity resolution)
          \<and> ditherPost palette width height data (1 \<le> resolution)
              (applySierraDithering colorCache data width height palette intensity resolution))"
proof (intro conjI impI)
  assume c: "cacheDefined colorCache"
  note r = applyDithering_returns [OF assms c, of resolution _ intensity]
  show "ditherShape width height data (1 \<le> resolution)
          (applyBayerDithering colorCache data width height palette intensity resolution)"
    using r [of Bayer] by (simp add: applyDithering_def)
  show "ditherShape width height data (1 \<le> resolution)
          (applyFloydSteinbergDithering colorCache data width height palette intensity resolution)"
    using r [of FloydSteinberg] by (simp add: applyDithering_def)
  show "ditherShape width height data (1 \<le> resolution)
          (applyJJNDithering colorCache data width height palette intensity resolution)"
    using r [of JJN] by (simp add: applyDithering_def)
  show "ditherShape width height data (1 \<le> resolution)
          (applyStuckiDithering colorCache data width height palette intensity resolution)"
    using r [of Stucki] by (simp add: applyDithering_def)
  show "ditherShape width height data (1 \<le> resolution)
          (applySierraDithering colorCache data width height palette intensity resolution)"
    using r [of Sierra] by (simp add: applyDithering_def)
next
  assume "validPalette palette \<and> cacheWithin palette colorCache"
  then have v: "validPalette palette" and c: "cacheWithin palette colorCache" by simp_all
  note r = applyDithering_post [OF assms v c, of resolution _ intensity]
  show "ditherPost palette width height data (1 \<le> resolution)
          (applyBayerDithering colorCache data width height palette intensity resolution)"
    using r [of Bayer] by (simp add: applyDithering_def)
  show "ditherPost palette width height data (1 \<le> resolution)
          (applyFloydSteinbergDithering colorCache data width height palette intensity resolution)"
    using r [of FloydSteinberg] by (simp add: applyDithering_def)
  show "ditherPost palette width height data (1 \<le> resolution)
          (applyJJNDithering colorCache data width height palette intensity resolution)"
    using r [of JJN] by (simp add: applyDithering_def)
  show "ditherPost palette width height data (1 \<le> resolution)
          (applyStuckiDithering colorCache data width height palette intensity resolution)"
    using r [of Stucki] by (simp add: applyDithering_def)
  show "ditherPost palette width height data (1 \<le> resolution)
          (applySierraDithering colorCache data width height palette intensity resolution)"
    using r [of Sierra] by (simp add: applyDithering_def)
qed

theorem C1_output_in_palette_witness:
  "ditherPost blackWhite 2 1 twoGrey True
     (applyFloydSteinbergDithering [] twoGrey 2 1 blackWhite 1 1)
   \<and> ditherPost blackWhite 4 2 frame4x2 False
     (applyBayerDithering [] frame4x2 4 2 blackWhite 1 (1 / 2))
   \<and> ditherShape 1 1 darkPixel True
     (applySierraDithering [(657930, Some (0, 0, 0))] darkPixel 1 1 [(255, 255, 255)] 1 1)"
proof -
  have w: "wellFormedFrame twoGrey 2 1" "wellFormedFrame frame4x2 4 2"
    "wellFormedFrame darkPixel 1 1"
    by (simp_all add: wellFormedFrame_def bytes_iff twoGrey_def frame4x2_def darkPixel_def
        inRange_def)
  have p: "blackWhite \<noteq> []" "validPalette blackWhite" "cacheWithin blackWhite []"
    "[(255, 255, 255) :: rgb] \<noteq> []"
    "cacheDefined [(657930, Some (0, 0, 0))]"
    by (simp_all add: blackWhite_def validPalette_def cacheWithin_def cacheDefined_def
        inRange_def)
  from C1_output_in_palette [OF w(1) p(1), of "[]" 1 1] p(2,3)
  have a: "ditherPost blackWhite 2 1 twoGrey True
     (applyFloydSteinbergDithering [] twoGrey 2 1 blackWhite 1 1)" by simp
  from C1_output_in_palette [OF w(2) p(1), of "[]" "1 / 2" 1] p(2,3)
  have b: "ditherPost blackWhite 4 2 frame4x2 False
     (applyBayerDithering [] frame4x2 4 2 blackWhite 1 (1 / 2))" by simp
  from C1_output_in_palette [OF w(3) p(4), of "[(657930, Some (0, 0, 0))]" 1 1] p(5)
  have c: "ditherShape 1 1 darkPixel True
     (applySierraDithering [(657930, Some (0, 0, 0))] darkPixel 1 1 [(255, 255, 255)] 1 1)"
    by simp
  from a b c show ?thesis by blast
qed

text \<open>
  Below resolution 1 the alpha byte is not kept: at resolution \<open>1 / 2\<close>, with the
  one-colour palette \<open>[(0, 0, 0)]\<close> and an empty cache, each of the five entry points
  turns \<open>frame4x2\<close> into \<open>frame4x2Averaged\<close>, whose first pixel has alpha 128 where the
  input has 255.
\<close>

theorem C1_alpha_counterexample:
  "map_option fst (applyBayerDithering [] frame4x2 4 2 [(0, 0, 0)] 1 (1 / 2))
     = Some frame4x2Averaged
   \<and> map_option fst (applyFloydSteinbergDithering [] frame4x2 4 2 [(0, 0, 0)] 1 (1 / 2))
     = Some frame4x2Averaged
   \<and> map_option fst (applyJJNDithering [] frame4x2 4 2 [(0, 0, 0)] 1 (1 / 2))
     = Some frame4x2Averaged
   \<and> map_option fst (applyStuckiDithering [] frame4x2 4 2 [(0, 0, 0)] 1 (1 / 2))
     = Some frame4x2Averaged
   \<and> map_option fst (applySierraDithering [] frame4x2 4 2 [(0, 0, 0)] 1 (1 / 2))
     = Some frame4x2Averaged
   \<and> pixelAlpha frame4x2 0 = 255 \<and> pixelAlpha frame4x2Averaged 0 = 128"
  by code_simp

end
